theory Spec2Isabelle
  imports Main
begin

section \<open>Python strings and integers\<close>

text \<open>
  A Python \<open>str\<close> is modelled as a \<open>string\<close>; one \<open>char\<close> stands for one code point
  below 256, so \<open>length\<close> is Python's \<open>len\<close> on such text. Python's unbounded \<open>int\<close>
  is \<open>int\<close>. The exceptions the modelled code can raise are values of \<open>error\<close>.
\<close>

datatype error = IndexError | TypeError | ExternalError string

text \<open>\<open>s.startswith(p)\<close> and \<open>s.endswith(p)\<close>.\<close>

fun startswith :: "string \<Rightarrow> string \<Rightarrow> bool" where
  "startswith s [] = True"
| "startswith [] (p # ps) = False"
| "startswith (c # cs) (p # ps) = (c = p \<and> startswith cs ps)"

definition endswith :: "string \<Rightarrow> string \<Rightarrow> bool" where
  "endswith s p = startswith (rev s) (rev p)"

text \<open>\<open>sub in s\<close> on strings: \<open>sub\<close> occurs in \<open>s\<close> as a contiguous substring.\<close>

fun str_in :: "string \<Rightarrow> string \<Rightarrow> bool" where
  "str_in sub [] = (sub = [])"
| "str_in sub (c # cs) = (startswith (c # cs) sub \<or> str_in sub cs)"

text \<open>\<open>s.replace(old, new)\<close> for a one-character \<open>old\<close>.\<close>

definition replace_char :: "char \<Rightarrow> string \<Rightarrow> string \<Rightarrow> string" where
  "replace_char old new s = concat (map (\<lambda>c. if c = old then new else [c]) s)"

text \<open>
  \<open>str.isspace\<close> per code point below 256: tab, line feed, vertical tab, form feed,
  carriage return, the four separators 0x1C..0x1F, space, next line (0x85) and the
  no-break space (0xA0). \<open>s.strip()\<close> removes these from both ends, and the regular
  expression class \<open>\s\<close> is the same set.
\<close>

definition is_space :: "char \<Rightarrow> bool" where
  "is_space c = (c \<in> set [CHR 0x09, CHR 0x0A, CHR 0x0B, CHR 0x0C, CHR 0x0D,
     CHR 0x1C, CHR 0x1D, CHR 0x1E, CHR 0x1F, CHR 0x20, CHR 0x85, CHR 0xA0])"

definition strip :: "string \<Rightarrow> string" where
  "strip s = rev (dropWhile is_space (rev (dropWhile is_space s)))"

text \<open>The regular expression class \<open>\d\<close>: below code point 256 the ten ASCII digits.\<close>

definition is_digit :: "char \<Rightarrow> bool" where
  "is_digit c = (c \<in> set ''0123456789'')"

text \<open>
  \<open>s.lower()\<close> per code point below 256: the letters A..Z and the Latin-1 capitals
  0xC0..0xDE (but the multiplication sign 0xD7) move up by 32.
\<close>

definition lower_char :: "char \<Rightarrow> char" where
  "lower_char c =
     (let n = (of_char c :: nat)
      in if (65 \<le> n \<and> n \<le> 90) \<or> (192 \<le> n \<and> n \<le> 222 \<and> n \<noteq> 215)
         then char_of (n + 32) else c)"

definition lower :: "string \<Rightarrow> string" where
  "lower s = map lower_char s"

text \<open>\<open>str(i)\<close> for an \<open>int\<close>: decimal digits, a leading minus sign when negative.\<close>

definition digit_char :: "nat \<Rightarrow> char" where
  "digit_char d = ''0123456789'' ! d"

function digits :: "nat \<Rightarrow> string" where
  "digits n = (if n < 10 then [digit_char n] else digits (n div 10) @ [digit_char (n mod 10)])"
  by pat_completeness auto
termination
  by (relation "measure id") auto

declare digits.simps [simp del]

definition str_int :: "int \<Rightarrow> string" where
  "str_int i = (if i < 0 then CHR ''-'' # digits (nat (- i)) else digits (nat i))"

text \<open>
  Python list indexing \<open>xs[i]\<close>: a negative index counts from the end, and an index out
  of range raises \<open>IndexError\<close> (here \<open>None\<close>).
\<close>

definition py_index :: "int \<Rightarrow> nat \<Rightarrow> nat option" where
  "py_index i n =
     (if 0 \<le> i \<and> i < int n then Some (nat i)
      else if i < 0 \<and> - int n \<le> i then Some (nat (int n + i))
      else None)"

text \<open>\<open>os.path.join(a, b)\<close> on POSIX.\<close>

definition path_join :: "string \<Rightarrow> string \<Rightarrow> string" where
  "path_join a b =
     (if startswith b ''/'' then b
      else if a = [] \<or> endswith a ''/'' then a @ b
      else a @ ''/'' @ b)"

section \<open>pdf\_splitter.py: page classification and grouping\<close>

subsection \<open>identify\_form\_type\<close>

fun identify_form_type :: "string \<Rightarrow> int \<Rightarrow> string" where
  "identify_form_type text_lower page_num =
    (if str_in ''form 1040'' text_lower
        \<or> (str_in ''1040'' text_lower \<and> str_in ''comparison'' text_lower)
     then ''Federal''
     else if str_in ''north carolina'' text_lower then
       (if str_in ''d-400'' text_lower \<or> str_in ''d 400'' text_lower
        then ''State - North Carolina (D-400)''
        else ''State - North Carolina'')
     else if str_in ''ohio'' text_lower then
       (if str_in ''it-1040'' text_lower \<or> str_in ''it 1040'' text_lower
           \<or> str_in ''it1040'' text_lower
        then ''State - Ohio (IT-1040)''
        else if str_in ''nonresident'' text_lower then ''State - Ohio (Nonresident)''
        else ''State - Ohio'')
     else if str_in ''california'' text_lower then
       (if str_in ''540'' text_lower then ''State - California (540)''
        else ''State - California'')
     else if str_in ''new york'' text_lower then
       (if str_in ''it-201'' text_lower \<or> str_in ''it 201'' text_lower
        then ''State - New York (IT-201)''
        else ''State - New York'')
     else if str_in ''texas'' text_lower then ''State - Texas''
     else if str_in ''florida'' text_lower then ''State - Florida''
     else if str_in ''pennsylvania'' text_lower then ''State - Pennsylvania''
     else if str_in ''new jersey'' text_lower then ''State - New Jersey''
     else if str_in ''illinois'' text_lower then ''State - Illinois''
     else if str_in ''massachusetts'' text_lower then ''State - Massachusetts''
     else if str_in ''state'' text_lower
        \<and> (str_in ''income tax'' text_lower \<or> str_in ''return'' text_lower
             \<or> str_in ''comparison'' text_lower)
     then ''State - Unknown (Page '' @ str_int (page_num + 1) @ '')''
     else ''Unknown'')"

declare identify_form_type.simps [simp del]

text \<open>
  The page text reaches the generic state rule (the last \<open>if\<close> of
  \<open>identify_form_type\<close>): no earlier rule of the cascade fires and the generic guard
  holds.
\<close>

definition generic_state_fallback :: "string \<Rightarrow> bool" where
  "generic_state_fallback text_lower =
    (\<not> (str_in ''form 1040'' text_lower
         \<or> (str_in ''1040'' text_lower \<and> str_in ''comparison'' text_lower))
     \<and> \<not> str_in ''north carolina'' text_lower
     \<and> \<not> str_in ''ohio'' text_lower
     \<and> \<not> str_in ''california'' text_lower
     \<and> \<not> str_in ''new york'' text_lower
     \<and> \<not> str_in ''texas'' text_lower
     \<and> \<not> str_in ''florida'' text_lower
     \<and> \<not> str_in ''pennsylvania'' text_lower
     \<and> \<not> str_in ''new jersey'' text_lower
     \<and> \<not> str_in ''illinois'' text_lower
     \<and> \<not> str_in ''massachusetts'' text_lower
     \<and> str_in ''state'' text_lower
     \<and> (str_in ''income tax'' text_lower \<or> str_in ''return'' text_lower
          \<or> str_in ''comparison'' text_lower))"

subsection \<open>Grouping\<close>

record page_info =
  page_num :: int
  page_index :: int
  form_type :: string
  text_length :: int

record form_group =
  g_form_type :: string
  g_pages :: "int list"
  g_page_indices :: "int list"

definition should_group_with_previous :: "string \<Rightarrow> string \<Rightarrow> bool" where
  "should_group_with_previous previous_form current_form =
     (if previous_form = current_form then True
      else if previous_form = ''Federal'' \<and> current_form = ''Unknown'' then True
      else False)"

text \<open>
  The loop of \<open>group_pages_intelligently\<close>: the state is the list \<open>groups\<close> of closed
  groups and \<open>current_group\<close> (\<open>None\<close> before the first page).
\<close>

fun group_loop :: "form_group list \<Rightarrow> form_group option \<Rightarrow> page_info list
    \<Rightarrow> form_group list \<times> form_group option" where
  "group_loop groups current_group [] = (groups, current_group)"
| "group_loop groups None (p # ps) =
     group_loop groups
       (Some \<lparr>g_form_type = form_type p, g_pages = [page_num p],
              g_page_indices = [page_index p]\<rparr>) ps"
| "group_loop groups (Some g) (p # ps) =
     (if should_group_with_previous (g_form_type g) (form_type p)
      then group_loop groups
             (Some (g\<lparr>g_pages := g_pages g @ [page_num p],
                      g_page_indices := g_page_indices g @ [page_index p]\<rparr>)) ps
      else group_loop (groups @ [g])
             (Some \<lparr>g_form_type = form_type p, g_pages = [page_num p],
                    g_page_indices = [page_index p]\<rparr>) ps)"

definition group_pages_intelligently :: "page_info list \<Rightarrow> form_group list" where
  "group_pages_intelligently page_form_types =
     (if page_form_types = [] then []
      else case group_loop [] None page_form_types of
             (groups, Some g) \<Rightarrow> groups @ [g]
           | (groups, None) \<Rightarrow> groups)"

subsection \<open>detect\_form\_types\_with\_ocr\<close>

text \<open>
  The rasteriser \<open>convert_from_path\<close> and the OCR call \<open>image_to_string\<close> are external:
  they are parameters, and either may raise. The page loop appends one record per image;
  an exception anywhere inside the \<open>try\<close> block makes the function return the empty
  list.
\<close>

fun ocr_loop :: "('img \<Rightarrow> error + string) \<Rightarrow> int \<Rightarrow> 'img list \<Rightarrow> page_info list
    \<Rightarrow> error + page_info list" where
  "ocr_loop image_to_string n [] page_form_types = Inr page_form_types"
| "ocr_loop image_to_string n (img # images) page_form_types =
     (case image_to_string img of
        Inl e \<Rightarrow> Inl e
      | Inr txt \<Rightarrow>
          ocr_loop image_to_string (n + 1) images
            (page_form_types @
              [\<lparr>page_num = n + 1, page_index = n,
                form_type = identify_form_type (lower txt) n,
                text_length = int (length txt)\<rparr>]))"

definition detect_form_types_with_ocr ::
    "(string \<Rightarrow> error + 'img list) \<Rightarrow> ('img \<Rightarrow> error + string) \<Rightarrow> string
     \<Rightarrow> page_info list" where
  "detect_form_types_with_ocr convert_from_path image_to_string pdf_path =
     (case convert_from_path pdf_path of
        Inl e \<Rightarrow> []
      | Inr images \<Rightarrow>
          (case ocr_loop image_to_string 0 images [] of
             Inl e \<Rightarrow> []
           | Inr page_form_types \<Rightarrow> page_form_types))"

subsection \<open>create\_split\_pdfs and split\_pdf\<close>

record split_pdf_info =
  file_path :: string
  sp_form_type :: "string option"
  sp_pages :: "int list"

text \<open>
  The only state \<open>create_split_pdfs\<close> touches is the output directory: \<open>None\<close> when it
  does not exist, otherwise the files in it, each a path with the pages written to it.
  Opening a path for writing replaces the file of that path.
\<close>

type_synonym 'pg out_dir = "(string \<times> 'pg list) list option"

definition write_file :: "string \<Rightarrow> 'pg list \<Rightarrow> (string \<times> 'pg list) list
    \<Rightarrow> (string \<times> 'pg list) list" where
  "write_file path pages_written files =
     filter (\<lambda>f. fst f \<noteq> path) files @ [(path, pages_written)]"

text \<open>
  \<open>for page_index in group['page_indices']: pdf_writer.add_page(pdf_reader.pages[page_index])\<close>
\<close>

fun add_pages :: "'pg list \<Rightarrow> int list \<Rightarrow> 'pg list \<Rightarrow> error + 'pg list" where
  "add_pages reader_pages [] writer = Inr writer"
| "add_pages reader_pages (i # is) writer =
     (case py_index i (length reader_pages) of
        None \<Rightarrow> Inl IndexError
      | Some k \<Rightarrow> add_pages reader_pages is (writer @ [reader_pages ! k]))"

definition form_name :: "string \<Rightarrow> string" where
  "form_name ft =
     replace_char (CHR ''-'') []
       (replace_char (CHR '')'') []
         (replace_char (CHR ''('') []
           (replace_char (CHR '' '') ''_'' ft)))"

fun split_loop :: "string \<Rightarrow> 'pg list \<Rightarrow> int \<Rightarrow> form_group list \<Rightarrow> split_pdf_info list
    \<Rightarrow> (string \<times> 'pg list) list
    \<Rightarrow> (error + split_pdf_info list) \<times> (string \<times> 'pg list) list" where
  "split_loop output_dir reader_pages counter [] split_pdfs files = (Inr split_pdfs, files)"
| "split_loop output_dir reader_pages counter (g # gs) split_pdfs files =
     (let output_filename = str_int counter @ ''_'' @ form_name (g_form_type g) @ ''.pdf'';
          output_path = path_join output_dir output_filename
      in case add_pages reader_pages (g_page_indices g) [] of
           Inl e \<Rightarrow> (Inl e, files)
         | Inr writer \<Rightarrow>
             split_loop output_dir reader_pages (counter + 1) gs
               (split_pdfs @
                 [\<lparr>file_path = output_path, sp_form_type = Some (g_form_type g),
                   sp_pages = g_pages g\<rparr>])
               (write_file output_path writer files))"

text \<open>
  The directory is removed when it exists and created afresh before the \<open>try\<close> block;
  an exception inside the block (the source PDF cannot be read, a page index is out of
  range) makes the function return the empty list, the files written so far staying.
\<close>

definition create_split_pdfs ::
    "(string \<Rightarrow> error + 'pg list) \<Rightarrow> string \<Rightarrow> string \<Rightarrow> form_group list \<Rightarrow> 'pg out_dir
     \<Rightarrow> split_pdf_info list \<times> 'pg out_dir" where
  "create_split_pdfs pdf_reader output_dir pdf_path form_groups dir =
     (case pdf_reader pdf_path of
        Inl e \<Rightarrow> ([], Some [])
      | Inr reader_pages \<Rightarrow>
          (case split_loop output_dir reader_pages 1 form_groups [] [] of
             (Inl e, files) \<Rightarrow> ([], Some files)
           | (Inr split_pdfs, files) \<Rightarrow> (split_pdfs, Some files)))"

definition split_pdf ::
    "(string \<Rightarrow> error + 'img list) \<Rightarrow> ('img \<Rightarrow> error + string)
     \<Rightarrow> (string \<Rightarrow> error + 'pg list) \<Rightarrow> string \<Rightarrow> string \<Rightarrow> 'pg out_dir
     \<Rightarrow> split_pdf_info list \<times> 'pg out_dir" where
  "split_pdf convert_from_path image_to_string pdf_reader pdf_path output_dir dir =
     (let page_form_types =
            detect_form_types_with_ocr convert_from_path image_to_string pdf_path
      in if page_form_types = [] then ([], dir)
         else create_split_pdfs pdf_reader output_dir pdf_path
                (group_pages_intelligently page_form_types) dir)"

section \<open>ocr\_json\_builder.py: table structuring and the report\<close>

subsection \<open>Regular expressions of the builder\<close>

text \<open>The character class \<open>[\d$,\(\)\-\.]\<close> and \<open>re.search\<close> with it.\<close>

definition is_numeric_char :: "char \<Rightarrow> bool" where
  "is_numeric_char c = (is_digit c \<or> c \<in> set ''$,()-.'')"

definition re_search_numeric :: "string \<Rightarrow> bool" where
  "re_search_numeric cell = list_ex is_numeric_char cell"

text \<open>
  \<open>re.search(r"\d{3}-\d{2}-\d{4}", cell)\<close>: \<open>ssn_here\<close> matches the pattern at the start
  of the text, \<open>re_search_ssn\<close> returns \<open>group(0)\<close> of the leftmost match.
\<close>

definition ssn_here :: "string \<Rightarrow> string option" where
  "ssn_here s =
     (if 11 \<le> length s
         \<and> list_all is_digit (take 3 s) \<and> s ! 3 = CHR ''-''
         \<and> list_all is_digit (take 2 (drop 4 s)) \<and> s ! 6 = CHR ''-''
         \<and> list_all is_digit (take 4 (drop 7 s))
      then Some (take 11 s) else None)"

fun re_search_ssn :: "string \<Rightarrow> string option" where
  "re_search_ssn [] = None"
| "re_search_ssn (c # cs) =
     (case ssn_here (c # cs) of Some m \<Rightarrow> Some m | None \<Rightarrow> re_search_ssn cs)"

text \<open>
  \<open>re.match(r"^(\d+)\.\s*(.+)$", val)\<close>. The digits are followed by a dot, so group 1 is
  the whole leading run of digits. \<open>.\<close> matches every character but the line feed and
  \<open>$\<close> matches at the end or before a line feed that ends the text, so \<open>(.+)$\<close> matches
  a text that is a non-empty run without line feed, optionally followed by one final line
  feed (\<open>dot_plus_end\<close>, returning group 2). \<open>\s*\<close> is greedy and backtracks: it first
  takes all the leading white space, then gives it back one character at a time
  (\<open>ws_backtrack\<close>).
\<close>

definition dot_plus_end :: "string \<Rightarrow> string option" where
  "dot_plus_end t =
     (let body = takeWhile (\<lambda>c. c \<noteq> CHR 0x0A) t;
          rest = dropWhile (\<lambda>c. c \<noteq> CHR 0x0A) t
      in if body \<noteq> [] \<and> (rest = [] \<or> rest = [CHR 0x0A]) then Some body else None)"

fun ws_backtrack :: "nat \<Rightarrow> string \<Rightarrow> string option" where
  "ws_backtrack 0 t = dot_plus_end t"
| "ws_backtrack (Suc k) t =
     (case dot_plus_end (drop (Suc k) t) of
        Some d \<Rightarrow> Some d
      | None \<Rightarrow> ws_backtrack k t)"

definition re_match_line_item :: "string \<Rightarrow> (string \<times> string) option" where
  "re_match_line_item val =
     (let num = takeWhile is_digit val; rest = dropWhile is_digit val
      in if num = [] then None
         else case rest of
                [] \<Rightarrow> None
              | c # t \<Rightarrow>
                  if c = CHR ''.''
                  then map_option (\<lambda>d. (num, d)) (ws_backtrack (length (takeWhile is_space t)) t)
                  else None)"

subsection \<open>The layout result and the cell grid\<close>

record table_cell =
  row_index :: int
  column_index :: int
  content :: "string option"

record document_table =
  row_count :: int
  column_count :: int
  cells :: "table_cell list"

record document_page =
  page_number :: int

record analyze_result =
  pages :: "document_page list option"
  tables :: "document_table list option"

text \<open>\<open>xs[i]\<close> as a read.\<close>

definition py_get :: "'a list \<Rightarrow> int \<Rightarrow> error + 'a" where
  "py_get xs i = (case py_index i (length xs) of None \<Rightarrow> Inl IndexError | Some k \<Rightarrow> Inr (xs ! k))"

text \<open>\<open>result.tables or []\<close>\<close>

definition tables_or_empty :: "analyze_result \<Rightarrow> document_table list" where
  "tables_or_empty result = (case tables result of None \<Rightarrow> [] | Some ts \<Rightarrow> ts)"

text \<open>
  \<open>for cell in table.cells: grid[cell.row_index][cell.column_index] = (cell.content or "").strip()\<close>
\<close>

fun set_cells :: "string list list \<Rightarrow> table_cell list \<Rightarrow> error + string list list" where
  "set_cells grid [] = Inr grid"
| "set_cells grid (cell # cs) =
     (case py_index (row_index cell) (length grid) of
        None \<Rightarrow> Inl IndexError
      | Some r \<Rightarrow>
          (case py_index (column_index cell) (length (grid ! r)) of
             None \<Rightarrow> Inl IndexError
           | Some c \<Rightarrow>
               set_cells
                 (grid[r := (grid ! r)[c := strip (case content cell of None \<Rightarrow> [] | Some s \<Rightarrow> s)]])
                 cs))"

definition build_grid :: "document_table \<Rightarrow> error + string list list" where
  "build_grid t =
     set_cells (replicate (nat (row_count t)) (replicate (nat (column_count t)) [])) (cells t)"

subsection \<open>extract\_metadata\<close>

type_synonym metadata = "string \<rightharpoonup> string"

text \<open>The body of the two nested loops, for one cell of the grid.\<close>

definition scan_cell :: "string \<Rightarrow> metadata \<Rightarrow> metadata" where
  "scan_cell cell md =
     (if cell = [] then md
      else
        let m1 = (if str_in ''&'' cell \<and> 10 < length cell \<and> md ''taxpayerName'' = None
                  then md(''taxpayerName'' \<mapsto> cell) else md)
        in case re_search_ssn cell of
             None \<Rightarrow> m1
           | Some ssn \<Rightarrow> if m1 ''taxpayerId'' = None then m1(''taxpayerId'' \<mapsto> ssn) else m1)"

text \<open>
  The cells \<open>grid[r][c]\<close> that the loops \<open>for r in range(min(3, table.row_count))\<close>,
  \<open>for c in range(table.column_count)\<close> visit, in that order. (They are in range:
  lemma \<open>build_grid_dims\<close>.)
\<close>

definition scanned_cells :: "string list list \<Rightarrow> document_table \<Rightarrow> string list" where
  "scanned_cells grid t =
     concat (map (\<lambda>r. map (\<lambda>c. grid ! r ! c) [0..<nat (column_count t)])
                 [0..<nat (min 3 (row_count t))])"

fun extract_tables :: "document_table list \<Rightarrow> metadata \<Rightarrow> error + metadata" where
  "extract_tables [] md = Inr md"
| "extract_tables (t # ts) md =
     (case build_grid t of
        Inl e \<Rightarrow> Inl e
      | Inr grid \<Rightarrow> extract_tables ts (fold scan_cell (scanned_cells grid t) md))"

definition extract_metadata :: "analyze_result \<Rightarrow> metadata \<Rightarrow> error + metadata" where
  "extract_metadata result md = extract_tables (tables_or_empty result) md"

subsection \<open>Helpers of the table structurer\<close>

fun detect_row :: "string list \<Rightarrow> string option" where
  "detect_row [] = None"
| "detect_row (cell # rest) =
     (let c = lower cell
      in if str_in ''1040'' c then Some ''Federal (1040)''
         else if str_in ''ohio'' c then Some ''State - Ohio''
         else if str_in ''north carolina'' c \<or> str_in ''d-400'' c
           then Some ''State - North Carolina''
         else if str_in ''california'' c \<or> str_in ''540'' c then Some ''State - California''
         else detect_row rest)"

fun detect_rows :: "string list list \<Rightarrow> string" where
  "detect_rows [] = ''Unknown''"
| "detect_rows (r # rs) = (case detect_row r of Some l \<Rightarrow> l | None \<Rightarrow> detect_rows rs)"

definition detect_form_type :: "string list list \<Rightarrow> string" where
  "detect_form_type grid = detect_rows (take 3 grid)"

text \<open>The loop of \<open>infer_data_type\<close> over \<open>grid[1:6]\<close>, with its two counters.\<close>

fun infer_loop :: "string list list \<Rightarrow> int \<Rightarrow> nat \<Rightarrow> nat \<Rightarrow> error + (nat \<times> nat)" where
  "infer_loop [] col numeric_count text_count = Inr (numeric_count, text_count)"
| "infer_loop (r # rs) col numeric_count text_count =
     (if int (length r) \<le> col then infer_loop rs col numeric_count text_count
      else case py_get r col of
             Inl e \<Rightarrow> Inl e
           | Inr cell \<Rightarrow>
               if cell = [] then infer_loop rs col numeric_count text_count
               else if re_search_numeric cell
                 then infer_loop rs col (numeric_count + 1) text_count
               else infer_loop rs col numeric_count (text_count + 1))"

definition infer_data_type :: "string list list \<Rightarrow> int \<Rightarrow> error + string" where
  "infer_data_type grid col =
     (case infer_loop (take 5 (drop 1 grid)) col 0 0 of
        Inl e \<Rightarrow> Inl e
      | Inr (numeric_count, text_count) \<Rightarrow>
          Inr (if text_count < numeric_count then ''numeric'' else ''text''))"

definition clean_value :: "string \<Rightarrow> string \<Rightarrow> string" where
  "clean_value val data_type =
     (if val = [] then []
      else if data_type = ''numeric'' then
        (let v = strip (replace_char (CHR ''|'') []
                   (replace_char (CHR '' '') []
                     (replace_char (CHR '','') []
                       (replace_char (CHR ''$'') [] val))))
         in if startswith v ''('' \<and> endswith v '')'' then CHR ''-'' # butlast (drop 1 v) else v)
      else strip val)"

record column_spec =
  columnIndex :: int
  columnId :: string
  columnName :: string
  dataType :: string

record field_value =
  f_columnIndex :: int
  f_columnId :: string
  f_columnName :: string
  f_value :: string
  cleanedValue :: string

record line_item =
  lineNumber :: string
  description :: string

record row_data =
  rowIndex :: int
  rowId :: string
  row_fields :: "field_value list"
  lineItem :: "line_item option"

record table_data =
  formType :: string
  rowCount :: int
  columnCount :: int
  columns :: "column_spec list"
  data :: "row_data list"

fun try_extract_line_item :: "field_value list \<Rightarrow> line_item option" where
  "try_extract_line_item [] = None"
| "try_extract_line_item (f # fs) =
     (case re_match_line_item (f_value f) of
        Some (n, d) \<Rightarrow> Some \<lparr>lineNumber = n, description = d\<rparr>
      | None \<Rightarrow> try_extract_line_item fs)"

subsection \<open>generate\_hybrid\_structure\<close>

text \<open>
  The column loop \<open>for c in range(table.column_count)\<close>: \<open>grid[0][c]\<close> raises on a grid
  with no row.
\<close>

fun define_columns :: "string list list \<Rightarrow> nat list \<Rightarrow> column_spec list
    \<Rightarrow> error + column_spec list" where
  "define_columns grid [] cols = Inr cols"
| "define_columns grid (c # cs) cols =
     (case py_get grid 0 of
        Inl e \<Rightarrow> Inl e
      | Inr row0 \<Rightarrow>
          (case py_get row0 (int c) of
             Inl e \<Rightarrow> Inl e
           | Inr header \<Rightarrow>
               (case infer_data_type grid (int c) of
                  Inl e \<Rightarrow> Inl e
                | Inr dt \<Rightarrow>
                    define_columns grid cs
                      (cols @
                        [\<lparr>columnIndex = int c, columnId = ''col_'' @ str_int (int c),
                          columnName = (if header = [] then ''Column_'' @ str_int (int c)
                                        else header),
                          dataType = dt\<rparr>]))))"

text \<open>The field loop \<open>for c, col in enumerate(table_data["columns"])\<close> of row \<open>r\<close>.\<close>

fun build_fields :: "string list list \<Rightarrow> int \<Rightarrow> nat \<Rightarrow> column_spec list \<Rightarrow> field_value list
    \<Rightarrow> error + field_value list" where
  "build_fields grid r c [] fs = Inr fs"
| "build_fields grid r c (col # cols) fs =
     (case py_get grid r of
        Inl e \<Rightarrow> Inl e
      | Inr row \<Rightarrow>
          (case py_get row (int c) of
             Inl e \<Rightarrow> Inl e
           | Inr val \<Rightarrow>
               build_fields grid r (Suc c) cols
                 (fs @
                   [\<lparr>f_columnIndex = int c, f_columnId = columnId col,
                     f_columnName = columnName col, f_value = val,
                     cleanedValue = clean_value val (dataType col)\<rparr>])))"

text \<open>
  One row: its fields, then the line item; the key \<open>lineItem\<close> is set only when
  \<open>try_extract_line_item\<close> returned one.
\<close>

definition build_row :: "string list list \<Rightarrow> column_spec list \<Rightarrow> int \<Rightarrow> error + row_data" where
  "build_row grid cols r =
     (case build_fields grid r 0 cols [] of
        Inl e \<Rightarrow> Inl e
      | Inr fs \<Rightarrow>
          Inr \<lparr>rowIndex = r, rowId = ''row_'' @ str_int r, row_fields = fs,
               lineItem = try_extract_line_item fs\<rparr>)"

text \<open>The row loop \<open>for r in range(1, table.row_count)\<close>.\<close>

fun build_rows :: "string list list \<Rightarrow> column_spec list \<Rightarrow> int list \<Rightarrow> row_data list
    \<Rightarrow> error + row_data list" where
  "build_rows grid cols [] rows = Inr rows"
| "build_rows grid cols (r # rs) rows =
     (case build_row grid cols r of
        Inl e \<Rightarrow> Inl e
      | Inr row \<Rightarrow> build_rows grid cols rs (rows @ [row]))"

text \<open>The body of the \<open>try\<close> block for one table.\<close>

definition structure_table :: "document_table \<Rightarrow> error + table_data" where
  "structure_table t =
     (case build_grid t of
        Inl e \<Rightarrow> Inl e
      | Inr grid \<Rightarrow>
          (case define_columns grid [0..<nat (column_count t)] [] of
             Inl e \<Rightarrow> Inl e
           | Inr cols \<Rightarrow>
               (case build_rows grid cols [1..row_count t - 1] [] of
                  Inl e \<Rightarrow> Inl e
                | Inr rows \<Rightarrow>
                    Inr \<lparr>formType = detect_form_type grid, rowCount = row_count t,
                         columnCount = column_count t, columns = cols, data = rows\<rparr>)))"

text \<open>The table loop: an exception of the body is caught and the table is left out.\<close>

fun hybrid_loop :: "document_table list \<Rightarrow> table_data list \<Rightarrow> table_data list" where
  "hybrid_loop [] tables_out = tables_out"
| "hybrid_loop (t # ts) tables_out =
     (case structure_table t of
        Inl e \<Rightarrow> hybrid_loop ts tables_out
      | Inr table_data \<Rightarrow> hybrid_loop ts (tables_out @ [table_data]))"

definition generate_hybrid_structure :: "analyze_result \<Rightarrow> string \<Rightarrow> table_data list" where
  "generate_hybrid_structure result ft = hybrid_loop (tables_or_empty result) []"

subsection \<open>run\_azure\_layout and process\_split\_pdfs\<close>

text \<open>
  The layout service (reading the file, the request, the poller's result) is the external
  parameter \<open>client\<close>. Inside the \<open>try\<close> block the progress line takes \<open>len(result.pages)\<close>
  and \<open>len(result.tables)\<close>, which raises when either is \<open>None\<close>; every exception makes
  the function return \<open>None\<close>.
\<close>

definition run_azure_layout :: "(string \<Rightarrow> error + analyze_result) \<Rightarrow> string
    \<Rightarrow> analyze_result option" where
  "run_azure_layout client pdf_path =
     (case client pdf_path of
        Inl e \<Rightarrow> None
      | Inr result \<Rightarrow>
          if pages result = None \<or> tables result = None then None else Some result)"

record report =
  pageCount :: int
  tableCount :: int
  r_metadata :: metadata
  r_tables :: "table_data list"

text \<open>
  The loop over the split documents. \<open>extract_metadata\<close> is called outside any \<open>try\<close>:
  an exception it raises leaves \<open>process_split_pdfs\<close>, and no report is returned.
\<close>

fun process_loop :: "(string \<Rightarrow> error + analyze_result) \<Rightarrow> report \<Rightarrow> split_pdf_info list
    \<Rightarrow> error + report" where
  "process_loop client rep [] = Inr rep"
| "process_loop client rep (pdf_info # rest) =
     (let ft = (case sp_form_type pdf_info of None \<Rightarrow> ''Unknown'' | Some f \<Rightarrow> f)
      in case run_azure_layout client (file_path pdf_info) of
           None \<Rightarrow> process_loop client rep rest
         | Some result \<Rightarrow>
             (let rep1 = rep\<lparr>pageCount := pageCount rep
                                  + int (length (case pages result of None \<Rightarrow> [] | Some ps \<Rightarrow> ps)),
                              tableCount := tableCount rep
                                  + int (length (tables_or_empty result))\<rparr>
              in case extract_metadata result (r_metadata rep1) of
                   Inl e \<Rightarrow> Inl e
                 | Inr md \<Rightarrow>
                     process_loop client
                       (rep1\<lparr>r_metadata := md,
                             r_tables := r_tables rep1 @ generate_hybrid_structure result ft\<rparr>)
                       rest))"

definition process_split_pdfs :: "(string \<Rightarrow> error + analyze_result) \<Rightarrow> split_pdf_info list
    \<Rightarrow> error + report" where
  "process_split_pdfs client split_pdfs =
     process_loop client
       \<lparr>pageCount = 0, tableCount = 0, r_metadata = Map.empty, r_tables = []\<rparr> split_pdfs"

section \<open>Notions used to state the properties\<close>

text \<open>Reading a decimal numeral back: the left inverse of \<open>digits\<close>.\<close>

definition digit_val :: "char \<Rightarrow> nat" where
  "digit_val c = length (takeWhile (\<lambda>d. d \<noteq> c) ''0123456789'')"

definition undigits :: "string \<Rightarrow> nat" where
  "undigits s = foldl (\<lambda>a c. 10 * a + digit_val c) 0 s"

text \<open>
  The classification pass fails: the conversion to images raises, or the OCR of some page
  image does.
\<close>

definition classification_fails ::
    "(string \<Rightarrow> error + 'img list) \<Rightarrow> ('img \<Rightarrow> error + string) \<Rightarrow> string \<Rightarrow> bool" where
  "classification_fails convert_from_path image_to_string pdf_path =
     (case convert_from_path pdf_path of
        Inl e \<Rightarrow> True
      | Inr images \<Rightarrow> list_ex (\<lambda>img. isl (image_to_string img)) images)"

text \<open>
  The sample of column \<open>col\<close>: its cells in rows 1 to 5 of the grid, as far as these rows
  exist and reach the column.
\<close>

definition sampled_cells :: "string list list \<Rightarrow> nat \<Rightarrow> string list" where
  "sampled_cells grid col =
     map (\<lambda>r. r ! col) (filter (\<lambda>r. col < length r) (take 5 (drop 1 grid)))"



text \<open>The same two counts over the non-empty sampled cells only.\<close>

definition nonempty_matching_count :: "string list list \<Rightarrow> nat \<Rightarrow> nat" where
  "nonempty_matching_count grid col =
     length (filter (\<lambda>cell. cell \<noteq> [] \<and> re_search_numeric cell) (sampled_cells grid col))"

definition nonempty_non_matching_count :: "string list list \<Rightarrow> nat \<Rightarrow> nat" where
  "nonempty_non_matching_count grid col =
     length (filter (\<lambda>cell. cell \<noteq> [] \<and> \<not> re_search_numeric cell) (sampled_cells grid col))"

text \<open>A cell that qualifies as taxpayer name, and the first taxpayer id of a list of cells.\<close>

definition name_like :: "string \<Rightarrow> bool" where
  "name_like cell = (cell \<noteq> [] \<and> str_in ''&'' cell \<and> 10 < length cell)"

fun first_ssn :: "string list \<Rightarrow> string option" where
  "first_ssn [] = None"
| "first_ssn (cell # rest) =
     (case re_search_ssn cell of Some ssn \<Rightarrow> Some ssn | None \<Rightarrow> first_ssn rest)"

text \<open>
  The cells a run scans for metadata, in scan order: document by document (those the
  layout service returned a result for), table by table, rows 0 to 2, column by column.
\<close>

definition table_scan :: "document_table \<Rightarrow> string list" where
  "table_scan t = (case build_grid t of Inl e \<Rightarrow> [] | Inr grid \<Rightarrow> scanned_cells grid t)"

definition document_scan :: "analyze_result \<Rightarrow> string list" where
  "document_scan result = concat (map table_scan (tables_or_empty result))"

definition processed_results :: "(string \<Rightarrow> error + analyze_result) \<Rightarrow> split_pdf_info list
    \<Rightarrow> analyze_result list" where
  "processed_results client split_pdfs =
     List.map_filter (\<lambda>pdf_info. run_azure_layout client (file_path pdf_info)) split_pdfs"

definition run_scan :: "(string \<Rightarrow> error + analyze_result) \<Rightarrow> split_pdf_info list
    \<Rightarrow> string list" where
  "run_scan client split_pdfs = concat (map document_scan (processed_results client split_pdfs))"

text \<open>The line item of the first field, in column order, whose raw value matches.\<close>

definition first_line_item :: "field_value list \<Rightarrow> line_item option" where
  "first_line_item fs =
     (case find (\<lambda>f. re_match_line_item (f_value f) \<noteq> None) fs of
        None \<Rightarrow> None
      | Some f \<Rightarrow>
          map_option (\<lambda>m. \<lparr>lineNumber = fst m, description = snd m\<rparr>)
            (re_match_line_item (f_value f)))"

text \<open>The tables of a result that are structured without an exception, in table order.\<close>

definition structured_tables :: "analyze_result \<Rightarrow> table_data list" where
  "structured_tables result =
     List.map_filter
       (\<lambda>t. case structure_table t of Inl e \<Rightarrow> None | Inr td \<Rightarrow> Some td)
       (tables_or_empty result)"

text \<open>
  White space and decimal digits by code point, as the Unicode tables give them below 256.
\<close>

definition white_space :: "char \<Rightarrow> bool" where
  "white_space c =
     (let n = (of_char c :: nat)
      in (9 \<le> n \<and> n \<le> 13) \<or> (28 \<le> n \<and> n \<le> 32) \<or> n = 133 \<or> n = 160)"

definition decimal_digit :: "char \<Rightarrow> bool" where
  "decimal_digit c = (let n = (of_char c :: nat) in 48 \<le> n \<and> n \<le> 57)"

text \<open>
  \<open>w\<close> is \<open>v\<close> trimmed: \<open>v\<close> is \<open>w\<close> between two runs of white space, and \<open>w\<close> neither
  starts nor ends with white space.
\<close>

definition trimmed_of :: "string \<Rightarrow> string \<Rightarrow> bool" where
  "trimmed_of w v =
     ((\<exists>a b. v = a @ w @ b \<and> list_all white_space a \<and> list_all white_space b)
      \<and> (w = [] \<or> (\<not> white_space (hd w) \<and> \<not> white_space (last w))))"

text \<open>
  The text \<open>val\<close> matches the line pattern \<open>^(\d+)\.\s*(.+)$\<close> with the digits \<open>n\<close> as group 1,
  the white space \<open>ws\<close> taken by \<open>\s*\<close>, \<open>d\<close> as group 2 and \<open>nl\<close> as what \<open>$\<close> leaves at
  the end: nothing, or the one line feed that ends the text. The dot \<open>.\<close> of the pattern
  matches every character but the line feed.
\<close>

definition line_pattern :: "string \<Rightarrow> string \<Rightarrow> string \<Rightarrow> string \<Rightarrow> string \<Rightarrow> bool" where
  "line_pattern val n ws d nl =
     (val = n @ ''.'' @ ws @ d @ nl
      \<and> n \<noteq> [] \<and> list_all decimal_digit n
      \<and> list_all white_space ws
      \<and> d \<noteq> [] \<and> CHR 0x0A \<notin> set d
      \<and> (nl = [] \<or> nl = [CHR 0x0A]))"

text \<open>
  A taxpayer id has the shape ddd-dd-dddd: eleven characters, a hyphen in the fourth and
  seventh place and decimal digits elsewhere. The id of a cell is its leftmost substring of
  that shape, and the id of a list of cells is the id of the first cell that has one.
\<close>

definition shape_char :: "char \<Rightarrow> char" where
  "shape_char c =
     (if decimal_digit c then CHR ''d'' else if c = CHR ''-'' then CHR ''-'' else CHR ''x'')"

definition ssn_shaped :: "string \<Rightarrow> bool" where
  "ssn_shaped s = (map shape_char s = ''ddd-dd-dddd'')"

definition leftmost_ssn :: "string \<Rightarrow> string option" where
  "leftmost_ssn cell = find ssn_shaped (map (\<lambda>i. take 11 (drop i cell)) [0..<length cell])"

definition first_id :: "string list \<Rightarrow> string option" where
  "first_id cs = (case List.map_filter leftmost_ssn cs of [] \<Rightarrow> None | m # ms \<Rightarrow> Some m)"

text \<open>A cell that qualifies as taxpayer name: it contains "&" and has more than 10 characters.\<close>

definition name_cell :: "string \<Rightarrow> bool" where
  "name_cell cell = (CHR ''&'' \<in> set cell \<and> 10 < length cell)"

text \<open>
  The cells of rows 0 to 2 of a table's grid, row by row and from left to right in each
  row, and these cells for all tables of all processed documents of a run, in document and
  table order.
\<close>

definition rows_0_to_2 :: "document_table \<Rightarrow> string list" where
  "rows_0_to_2 t = (case build_grid t of Inl e \<Rightarrow> [] | Inr grid \<Rightarrow> concat (take 3 grid))"

definition run_cells :: "(string \<Rightarrow> error + analyze_result) \<Rightarrow> split_pdf_info list
    \<Rightarrow> string list" where
  "run_cells client split_pdfs =
     concat (map (\<lambda>result. concat (map rows_0_to_2 (tables_or_empty result)))
                 (processed_results client split_pdfs))"

section \<open>Example inputs\<close>

text \<open>
  A table with a joint taxpayer name and an id in its header row, and two data rows.
\<close>

definition example_federal_table :: document_table where
  "example_federal_table =
     \<lparr>row_count = 3, column_count = 2,
      cells = [\<lparr>row_index = 0, column_index = 0, content = Some ''John & Jane Doe''\<rparr>,
               \<lparr>row_index = 0, column_index = 1, content = Some ''SSN 111-22-3333''\<rparr>,
               \<lparr>row_index = 1, column_index = 0,
                content = Some ''12. Wages, salaries, tips''\<rparr>,
               \<lparr>row_index = 1, column_index = 1, content = Some ''$(1,234.50)''\<rparr>,
               \<lparr>row_index = 2, column_index = 1, content = Some ''1,000''\<rparr>]\<rparr>"

definition example_state_table :: document_table where
  "example_state_table =
     \<lparr>row_count = 2, column_count = 2,
      cells = [\<lparr>row_index = 0, column_index = 0, content = Some ''Alice & Robert Smith''\<rparr>,
               \<lparr>row_index = 1, column_index = 1, content = Some ''999-88-7777''\<rparr>]\<rparr>"

text \<open>A table with columns but no row, and a table with a cell outside its grid.\<close>

definition example_rowless_table :: document_table where
  "example_rowless_table = \<lparr>row_count = 0, column_count = 2, cells = []\<rparr>"

definition example_overflow_table :: document_table where
  "example_overflow_table =
     \<lparr>row_count = 1, column_count = 1,
      cells = [\<lparr>row_index = 1, column_index = 0, content = Some ''Total''\<rparr>]\<rparr>"

text \<open>
  A layout service that knows two split documents and fails on every other path, and the
  list of three split documents of a run.
\<close>

definition example_client :: "string \<Rightarrow> error + analyze_result" where
  "example_client path =
     (if path = ''split_pdfs/1_Federal.pdf''
      then Inr \<lparr>pages = Some [\<lparr>page_number = 1\<rparr>, \<lparr>page_number = 2\<rparr>],
                tables = Some [example_rowless_table, example_federal_table]\<rparr>
      else if path = ''split_pdfs/2_State__Ohio.pdf''
      then Inr \<lparr>pages = Some [\<lparr>page_number = 1\<rparr>], tables = Some [example_state_table]\<rparr>
      else Inl (ExternalError ''service unavailable''))"

definition example_split_pdfs :: "split_pdf_info list" where
  "example_split_pdfs =
     [\<lparr>file_path = ''split_pdfs/1_Federal.pdf'', sp_form_type = Some ''Federal'',
       sp_pages = [1, 2]\<rparr>,
      \<lparr>file_path = ''split_pdfs/2_State__Ohio.pdf'', sp_form_type = Some ''State - Ohio'',
       sp_pages = [3]\<rparr>,
      \<lparr>file_path = ''split_pdfs/3_Unknown.pdf'', sp_form_type = Some ''Unknown'',
       sp_pages = [4]\<rparr>]"

text \<open>A layout service whose single document has a table with a cell outside its grid.\<close>

definition example_overflow_client :: "string \<Rightarrow> error + analyze_result" where
  "example_overflow_client path =
     Inr \<lparr>pages = Some [\<lparr>page_number = 1\<rparr>],
          tables = Some [example_overflow_table, example_federal_table]\<rparr>"

text \<open>
  Tables for the scan of the metadata: a table whose only candidates are in row 3, and a
  table with several candidates in its rows 0 to 2 (and one more in row 3).
\<close>

definition example_row3_table :: document_table where
  "example_row3_table =
     \<lparr>row_count = 4, column_count = 1,
      cells = [\<lparr>row_index = 0, column_index = 0, content = Some ''Schedule''\<rparr>,
               \<lparr>row_index = 2, column_index = 0, content = Some ''Part I''\<rparr>,
               \<lparr>row_index = 3, column_index = 0,
                content = Some ''Trust & Estate Holdings 000-11-2222''\<rparr>]\<rparr>"

definition example_candidates_table :: document_table where
  "example_candidates_table =
     \<lparr>row_count = 4, column_count = 2,
      cells = [\<lparr>row_index = 0, column_index = 0, content = Some ''No & 1-2-3''\<rparr>,
               \<lparr>row_index = 0, column_index = 1, content = Some ''id 1234-56-78901''\<rparr>,
               \<lparr>row_index = 1, column_index = 0, content = Some ''555-66-7777''\<rparr>,
               \<lparr>row_index = 1, column_index = 1,
                content = Some ''  Pat & Sam Lee, joint ''\<rparr>,
               \<lparr>row_index = 2, column_index = 0,
                content = Some ''Kim & Lou Park, joint''\<rparr>,
               \<lparr>row_index = 3, column_index = 0,
                content = Some ''Zed & Amy Early 999-00-1111''\<rparr>]\<rparr>"

definition example_later_table :: document_table where
  "example_later_table =
     \<lparr>row_count = 1, column_count = 1,
      cells = [\<lparr>row_index = 0, column_index = 0,
                content = Some ''Ann & Joe Roe, joint 777-88-9999''\<rparr>]\<rparr>"

definition example_scan_client :: "string \<Rightarrow> error + analyze_result" where
  "example_scan_client path =
     (if path = ''split_pdfs/1_Federal.pdf''
      then Inr \<lparr>pages = Some [\<lparr>page_number = 1\<rparr>, \<lparr>page_number = 2\<rparr>],
                tables = Some [example_row3_table, example_candidates_table]\<rparr>
      else if path = ''split_pdfs/2_State__Ohio.pdf''
      then Inr \<lparr>pages = Some [\<lparr>page_number = 1\<rparr>], tables = Some [example_later_table]\<rparr>
      else Inl (ExternalError ''service unavailable''))"

section \<open>Properties of the page splitter\<close>

subsection \<open>Decimal numerals are injective\<close>

lemma below_ten: "(d::nat) < 10 \<Longrightarrow> d \<in> {0, 1, 2, 3, 4, 5, 6, 7, 8, 9}"
  by auto

lemma digit_val_digit_char: "d < 10 \<Longrightarrow> digit_val (digit_char d) = d"
  by (drule below_ten) (auto simp: digit_val_def digit_char_def)

lemma digit_char_not_minus: "d < 10 \<Longrightarrow> digit_char d \<noteq> CHR ''-''"
  by (drule below_ten) (auto simp: digit_char_def)

lemma undigits_digits: "undigits (digits n) = n"
proof (induction n rule: digits.induct)
  case (1 n)
  show ?case
  proof (cases "n < 10")
    case True
    then show ?thesis
      by (simp add: digits.simps[of n] undigits_def digit_val_digit_char)
  next
    case False
    with 1 have "undigits (digits (n div 10)) = n div 10"
      by simp
    with False show ?thesis
      by (simp add: digits.simps[of n] undigits_def digit_val_digit_char)
  qed
qed

lemma digits_head: "\<exists>c cs. digits n = c # cs \<and> c \<noteq> CHR ''-''"
proof (induction n rule: digits.induct)
  case (1 n)
  show ?case
  proof (cases "n < 10")
    case True
    then show ?thesis
      by (simp add: digits.simps[of n] digit_char_not_minus)
  next
    case False
    with 1 obtain c cs where "digits (n div 10) = c # cs" "c \<noteq> CHR ''-''"
      by auto
    with False show ?thesis
      by (simp add: digits.simps[of n])
  qed
qed

lemma digits_inj: "digits n = digits m \<Longrightarrow> n = m"
  by (metis undigits_digits)

lemma str_int_inj:
  assumes eq: "str_int i = str_int j"
  shows "i = j"
proof -
  obtain c cs where a: "digits (nat i) = c # cs" "c \<noteq> CHR ''-''"
    using digits_head by blast
  obtain d ds where b: "digits (nat j) = d # ds" "d \<noteq> CHR ''-''"
    using digits_head by blast
  consider (nn) "i < 0" "j < 0" | (np) "i < 0" "\<not> j < 0"
    | (pn) "\<not> i < 0" "j < 0" | (pp) "\<not> i < 0" "\<not> j < 0"
    by blast
  then show ?thesis
  proof cases
    case nn
    with eq have "digits (nat (- i)) = digits (nat (- j))"
      by (simp add: str_int_def)
    then have "nat (- i) = nat (- j)"
      by (rule digits_inj)
    with nn show ?thesis by simp
  next
    case np
    with eq b show ?thesis by (simp add: str_int_def)
  next
    case pn
    with eq a show ?thesis by (auto simp add: str_int_def)
  next
    case pp
    with eq have "digits (nat i) = digits (nat j)"
      by (simp add: str_int_def)
    then have "nat i = nat j"
      by (rule digits_inj)
    with pp show ?thesis by simp
  qed
qed

subsection \<open>The generic state label\<close>

lemma generic_state_label:
  "generic_state_fallback t \<Longrightarrow>
   identify_form_type t p = ''State - Unknown (Page '' @ str_int (p + 1) @ '')''"
  unfolding generic_state_fallback_def by (simp add: identify_form_type.simps)

text \<open>
  Claim C9. Two pages with different 0-based indices whose texts both reach the generic
  state rule of \<open>identify_form_type\<close> get different labels.
\<close>

theorem generic_state_label_injective:
  assumes "generic_state_fallback t1" and "generic_state_fallback t2" and "p \<noteq> q"
  shows "identify_form_type t1 p \<noteq> identify_form_type t2 q"
proof
  assume "identify_form_type t1 p = identify_form_type t2 q"
  with assms(1,2) have "str_int (p + 1) = str_int (q + 1)"
    by (simp add: generic_state_label)
  then have "p + 1 = q + 1"
    by (rule str_int_inj)
  with assms(3) show False by simp
qed

theorem generic_state_label_injective_witness:
  "generic_state_fallback ''state income tax summary''
   \<and> generic_state_fallback ''state return''
   \<and> identify_form_type ''state income tax summary'' 0 = ''State - Unknown (Page 1)''
   \<and> identify_form_type ''state return'' 10 = ''State - Unknown (Page 11)''
   \<and> identify_form_type ''state income tax summary'' 0 \<noteq> identify_form_type ''state return'' 10"
proof -
  have a: "generic_state_fallback ''state income tax summary''"
    by (simp add: generic_state_fallback_def)
  have b: "generic_state_fallback ''state return''"
    by (simp add: generic_state_fallback_def)
  have c: "(0::int) \<noteq> 10"
    by simp
  have d: "identify_form_type ''state income tax summary'' 0 = ''State - Unknown (Page 1)''"
    by (simp add: generic_state_label[OF a] str_int_def digits.simps digit_char_def)
  have e: "identify_form_type ''state return'' 10 = ''State - Unknown (Page 11)''"
    by (simp add: generic_state_label[OF b] str_int_def digits.simps digit_char_def)
  from generic_state_label_injective[OF a b c] a b d e show ?thesis
    by blast
qed


subsection \<open>Grouping\<close>

lemma group_loop_pages:
  "group_loop groups cur ps = (gs, c) \<Longrightarrow>
   concat (map g_pages gs) @ (case c of None \<Rightarrow> [] | Some g \<Rightarrow> g_pages g)
     = concat (map g_pages groups) @ (case cur of None \<Rightarrow> [] | Some g \<Rightarrow> g_pages g)
         @ map page_num ps"
  by (induction groups cur ps arbitrary: gs c rule: group_loop.induct)
     (auto split: if_splits)

lemma group_loop_page_indices:
  "group_loop groups cur ps = (gs, c) \<Longrightarrow>
   concat (map g_page_indices gs) @ (case c of None \<Rightarrow> [] | Some g \<Rightarrow> g_page_indices g)
     = concat (map g_page_indices groups)
         @ (case cur of None \<Rightarrow> [] | Some g \<Rightarrow> g_page_indices g) @ map page_index ps"
  by (induction groups cur ps arbitrary: gs c rule: group_loop.induct)
     (auto split: if_splits)

lemma group_loop_nonempty:
  "group_loop groups cur ps = (gs, c) \<Longrightarrow>
   list_all (\<lambda>g. g_pages g \<noteq> []) groups \<Longrightarrow>
   (case cur of None \<Rightarrow> True | Some g \<Rightarrow> g_pages g \<noteq> []) \<Longrightarrow>
   list_all (\<lambda>g. g_pages g \<noteq> []) gs \<and> (case c of None \<Rightarrow> True | Some g \<Rightarrow> g_pages g \<noteq> [])"
  by (induction groups cur ps arbitrary: gs c rule: group_loop.induct)
     (auto split: if_splits)

lemma group_pages_concat:
  "concat (map g_pages (group_pages_intelligently ps)) = map page_num ps"
  using group_loop_pages[of "[]" None ps]
  by (auto simp: group_pages_intelligently_def split: prod.splits option.splits)

lemma group_page_indices_concat:
  "concat (map g_page_indices (group_pages_intelligently ps)) = map page_index ps"
  using group_loop_page_indices[of "[]" None ps]
  by (auto simp: group_pages_intelligently_def split: prod.splits option.splits)

lemma group_pages_nonempty:
  "list_all (\<lambda>g. g_pages g \<noteq> []) (group_pages_intelligently ps)"
  using group_loop_nonempty[of "[]" None ps]
  by (auto simp: group_pages_intelligently_def split: prod.splits option.splits)

text \<open>
  Claim C1. For a page sequence of length N whose pages are numbered 1..N, the page lists
  of the groups, concatenated in group order, are the sequence 1..N, every page once; no
  group is empty; and the empty page sequence gives the empty group sequence.
\<close>

theorem group_pages_partition:
  assumes "map page_num ps = [1..int (length ps)]"
  shows "concat (map g_pages (group_pages_intelligently ps)) = [1..int (length ps)]
         \<and> distinct (concat (map g_pages (group_pages_intelligently ps)))
         \<and> list_all (\<lambda>g. g_pages g \<noteq> []) (group_pages_intelligently ps)
         \<and> group_pages_intelligently [] = []"
proof -
  have "concat (map g_pages (group_pages_intelligently ps)) = [1..int (length ps)]"
    using assms by (simp add: group_pages_concat)
  moreover have "distinct [1..int (length ps)]"
    by simp
  moreover have "group_pages_intelligently [] = []"
    by (simp add: group_pages_intelligently_def)
  ultimately show ?thesis
    by (simp add: group_pages_nonempty)
qed

theorem group_pages_partition_witness:
  "map page_num
     [\<lparr>page_num = 1, page_index = 0, form_type = ''Federal'', text_length = 40\<rparr>,
      \<lparr>page_num = 2, page_index = 1, form_type = ''Unknown'', text_length = 0\<rparr>,
      \<lparr>page_num = 3, page_index = 2, form_type = ''State - Ohio'', text_length = 25\<rparr>]
     = [1..int (length [0::nat, 1, 2])]
   \<and> map g_pages (group_pages_intelligently
     [\<lparr>page_num = 1, page_index = 0, form_type = ''Federal'', text_length = 40\<rparr>,
      \<lparr>page_num = 2, page_index = 1, form_type = ''Unknown'', text_length = 0\<rparr>,
      \<lparr>page_num = 3, page_index = 2, form_type = ''State - Ohio'', text_length = 25\<rparr>])
     = [[1, 2], [3]]
   \<and> concat (map g_pages (group_pages_intelligently
     [\<lparr>page_num = 1, page_index = 0, form_type = ''Federal'', text_length = 40\<rparr>,
      \<lparr>page_num = 2, page_index = 1, form_type = ''Unknown'', text_length = 0\<rparr>,
      \<lparr>page_num = 3, page_index = 2, form_type = ''State - Ohio'', text_length = 25\<rparr>]))
     = [1, 2, 3]"
proof -
  have h: "map page_num
     [\<lparr>page_num = 1, page_index = 0, form_type = ''Federal'', text_length = 40\<rparr>,
      \<lparr>page_num = 2, page_index = 1, form_type = ''Unknown'', text_length = 0\<rparr>,
      \<lparr>page_num = 3, page_index = 2, form_type = ''State - Ohio'', text_length = 25\<rparr>]
     = [1..int (length
     [\<lparr>page_num = 1, page_index = 0, form_type = ''Federal'', text_length = 40\<rparr>,
      \<lparr>page_num = 2, page_index = 1, form_type = ''Unknown'', text_length = 0\<rparr>,
      \<lparr>page_num = 3, page_index = 2, form_type = ''State - Ohio'', text_length = 25\<rparr>])]"
    by (simp add: upto.simps)
  have u: "[1..int (length [0::nat, 1, 2])] = [1, 2, 3]"
    by (simp add: upto.simps)
  have g: "map g_pages (group_pages_intelligently
     [\<lparr>page_num = 1, page_index = 0, form_type = ''Federal'', text_length = 40\<rparr>,
      \<lparr>page_num = 2, page_index = 1, form_type = ''Unknown'', text_length = 0\<rparr>,
      \<lparr>page_num = 3, page_index = 2, form_type = ''State - Ohio'', text_length = 25\<rparr>])
     = [[1, 2], [3]]"
    by (simp add: group_pages_intelligently_def should_group_with_previous_def)
  from group_pages_partition[OF h] h u g show ?thesis
    by simp
qed

text \<open>
  Claim C2. The adjacency rule groups a page with the current group exactly when the two
  labels are identical or the group is "Federal" and the page is "Unknown"; so a page
  labelled "Unknown" is attached exactly to a "Federal" (or an "Unknown") group. Pages
  labelled Federal, Unknown, Federal form one group of three pages; pages labelled X,
  Unknown, X, for a label X other than "Federal" and "Unknown", form three groups of one
  page each.
\<close>

theorem unknown_glues_to_federal_only:
  assumes "x \<noteq> ''Federal''" and "x \<noteq> ''Unknown''"
  shows "(should_group_with_previous prev cur
            \<longleftrightarrow> prev = cur \<or> (prev = ''Federal'' \<and> cur = ''Unknown''))
    \<and> (should_group_with_previous prev ''Unknown''
            \<longleftrightarrow> prev = ''Federal'' \<or> prev = ''Unknown'')
    \<and> group_pages_intelligently
         [p1\<lparr>form_type := ''Federal''\<rparr>, p2\<lparr>form_type := ''Unknown''\<rparr>,
          p3\<lparr>form_type := ''Federal''\<rparr>]
       = [\<lparr>g_form_type = ''Federal'',
           g_pages = [page_num p1, page_num p2, page_num p3],
           g_page_indices = [page_index p1, page_index p2, page_index p3]\<rparr>]
    \<and> group_pages_intelligently
         [p1\<lparr>form_type := x\<rparr>, p2\<lparr>form_type := ''Unknown''\<rparr>, p3\<lparr>form_type := x\<rparr>]
       = [\<lparr>g_form_type = x, g_pages = [page_num p1], g_page_indices = [page_index p1]\<rparr>,
          \<lparr>g_form_type = ''Unknown'', g_pages = [page_num p2],
           g_page_indices = [page_index p2]\<rparr>,
          \<lparr>g_form_type = x, g_pages = [page_num p3], g_page_indices = [page_index p3]\<rparr>]"
proof -
  have a: "should_group_with_previous prev cur
            \<longleftrightarrow> prev = cur \<or> (prev = ''Federal'' \<and> cur = ''Unknown'')" for prev cur
    by (simp add: should_group_with_previous_def)
  have b: "group_pages_intelligently
         [p1\<lparr>form_type := ''Federal''\<rparr>, p2\<lparr>form_type := ''Unknown''\<rparr>,
          p3\<lparr>form_type := ''Federal''\<rparr>]
       = [\<lparr>g_form_type = ''Federal'',
           g_pages = [page_num p1, page_num p2, page_num p3],
           g_page_indices = [page_index p1, page_index p2, page_index p3]\<rparr>]"
    by (simp add: group_pages_intelligently_def a)
  have c: "group_pages_intelligently
         [p1\<lparr>form_type := x\<rparr>, p2\<lparr>form_type := ''Unknown''\<rparr>, p3\<lparr>form_type := x\<rparr>]
       = [\<lparr>g_form_type = x, g_pages = [page_num p1], g_page_indices = [page_index p1]\<rparr>,
          \<lparr>g_form_type = ''Unknown'', g_pages = [page_num p2],
           g_page_indices = [page_index p2]\<rparr>,
          \<lparr>g_form_type = x, g_pages = [page_num p3], g_page_indices = [page_index p3]\<rparr>]"
    using assms by (simp add: group_pages_intelligently_def a)
  have d: "should_group_with_previous prev ''Unknown''
            \<longleftrightarrow> prev = ''Federal'' \<or> prev = ''Unknown''"
    by (auto simp add: a)
  from a b c d show ?thesis
    by blast
qed

theorem unknown_glues_to_federal_only_witness:
  "''State - Ohio'' \<noteq> ''Federal'' \<and> ''State - Ohio'' \<noteq> ''Unknown''
   \<and> group_pages_intelligently
       [\<lparr>page_num = 1, page_index = 0, form_type = ''State - Ohio'', text_length = 9\<rparr>,
        \<lparr>page_num = 2, page_index = 1, form_type = ''Unknown'', text_length = 0\<rparr>,
        \<lparr>page_num = 3, page_index = 2, form_type = ''State - Ohio'', text_length = 7\<rparr>]
     = [\<lparr>g_form_type = ''State - Ohio'', g_pages = [1], g_page_indices = [0]\<rparr>,
        \<lparr>g_form_type = ''Unknown'', g_pages = [2], g_page_indices = [1]\<rparr>,
        \<lparr>g_form_type = ''State - Ohio'', g_pages = [3], g_page_indices = [2]\<rparr>]
   \<and> group_pages_intelligently
       [\<lparr>page_num = 1, page_index = 0, form_type = ''Federal'', text_length = 9\<rparr>,
        \<lparr>page_num = 2, page_index = 1, form_type = ''Unknown'', text_length = 0\<rparr>,
        \<lparr>page_num = 3, page_index = 2, form_type = ''Federal'', text_length = 7\<rparr>]
     = [\<lparr>g_form_type = ''Federal'', g_pages = [1, 2, 3], g_page_indices = [0, 1, 2]\<rparr>]"
proof -
  have a: "''State - Ohio'' \<noteq> ''Federal''"
    by simp
  have b: "''State - Ohio'' \<noteq> ''Unknown''"
    by simp
  from unknown_glues_to_federal_only[OF a b,
      of "''Federal''" "''Unknown''"
         "\<lparr>page_num = 1, page_index = 0, form_type = [], text_length = 9\<rparr>"
         "\<lparr>page_num = 2, page_index = 1, form_type = [], text_length = 0\<rparr>"
         "\<lparr>page_num = 3, page_index = 2, form_type = [], text_length = 7\<rparr>"]
  show ?thesis
    by simp
qed


subsection \<open>A failed classification pass\<close>

lemma ocr_loop_fails:
  "list_ex (\<lambda>img. isl (ocr img)) images \<Longrightarrow> isl (ocr_loop ocr n images acc)"
  by (induction images arbitrary: n acc) (auto simp: isl_def split: sum.splits)

lemma detect_fails:
  assumes "classification_fails convert ocr pdf_path"
  shows "detect_form_types_with_ocr convert ocr pdf_path = []"
proof (cases "convert pdf_path")
  case (Inl e)
  then show ?thesis by (simp add: detect_form_types_with_ocr_def)
next
  case (Inr images)
  with assms have "list_ex (\<lambda>img. isl (ocr img)) images"
    by (simp add: classification_fails_def)
  then have "isl (ocr_loop ocr 0 images [])"
    by (rule ocr_loop_fails)
  with Inr show ?thesis
    by (auto simp: detect_form_types_with_ocr_def split: sum.splits)
qed

lemma ocr_loop_page_nums:
  "ocr_loop ocr n images acc = Inr ps \<Longrightarrow>
   map page_num ps = map page_num acc @ [n + 1..n + int (length images)]
   \<and> map page_index ps = map page_index acc @ [n..n + int (length images) - 1]"
proof (induction images arbitrary: n acc)
  case Nil
  then show ?case by simp
next
  case (Cons img images)
  from Cons.prems obtain s where
    rest: "ocr_loop ocr (n + 1) images
             (acc @ [\<lparr>page_num = n + 1, page_index = n,
                      form_type = identify_form_type (lower s) n,
                      text_length = int (length s)\<rparr>]) = Inr ps"
    by (auto split: sum.splits)
  have e1: "n + int (length (img # images)) = n + 1 + int (length images)"
    by simp
  have e2: "n + int (length (img # images)) - 1 = n + int (length images)"
    by simp
  have e3: "n + 1 + int (length images) - 1 = n + int (length images)"
    by simp
  have a: "[n + 1..n + 1 + int (length images)]
             = (n + 1) # [n + 1 + 1..n + 1 + int (length images)]"
    by (rule upto_rec1) simp
  have b: "[n..n + int (length images)] = n # [n + 1..n + int (length images)]"
    by (rule upto_rec1) simp
  from Cons.IH[OF rest] show ?case
    unfolding e1 e2 e3 a b by simp
qed

text \<open>
  The pages that a successful classification pass returns are numbered 1..N, with the
  indices 0..N-1.
\<close>

lemma detect_page_nums:
  "map page_num (detect_form_types_with_ocr convert ocr pdf_path)
     = [1..int (length (detect_form_types_with_ocr convert ocr pdf_path))]"
proof (cases "convert pdf_path")
  case (Inl e)
  then show ?thesis by (simp add: detect_form_types_with_ocr_def)
next
  case (Inr images)
  show ?thesis
  proof (cases "ocr_loop ocr 0 images []")
    case (Inl e)
    with Inr show ?thesis by (simp add: detect_form_types_with_ocr_def)
  next
    case inr: (Inr ps)
    from ocr_loop_page_nums[OF inr] have "map page_num ps = [1..int (length images)]"
      by simp
    moreover from this have "length (map page_num ps) = length [1..int (length images)]"
      by (rule arg_cong)
    then have "length ps = length images"
      by simp
    ultimately show ?thesis
      using Inr inr by (simp add: detect_form_types_with_ocr_def)
  qed
qed

text \<open>
  Claim C8. When the classification pass fails (the conversion to images raises, or the
  OCR of any page raises), \<open>split_pdf\<close> returns no split document and leaves the output
  directory as it was: no file is written, none is removed.
\<close>

theorem failed_classification_splits_nothing:
  assumes "classification_fails convert ocr pdf_path"
  shows "split_pdf convert ocr reader pdf_path output_dir dir = ([], dir)"
  using detect_fails[OF assms] by (simp add: split_pdf_def)

theorem failed_classification_splits_nothing_witness:
  "classification_fails (\<lambda>p. Inr [1, 2, 3 :: nat])
     (\<lambda>i. if i = 3 then Inl (ExternalError ''ocr failed'') else Inr ''Form 1040'')
     ''comparison.pdf''
   \<and> split_pdf (\<lambda>p. Inr [1, 2, 3 :: nat])
     (\<lambda>i. if i = 3 then Inl (ExternalError ''ocr failed'') else Inr ''Form 1040'')
     (\<lambda>p. Inr [10, 20, 30 :: nat]) ''comparison.pdf'' ''split_pdfs''
     (Some [(''split_pdfs/1_Federal.pdf'', [7])])
     = ([], Some [(''split_pdfs/1_Federal.pdf'', [7])])"
proof -
  have h: "classification_fails (\<lambda>p. Inr [1, 2, 3 :: nat])
     (\<lambda>i. if i = 3 then Inl (ExternalError ''ocr failed'') else Inr ''Form 1040'')
     ''comparison.pdf''"
    by (simp add: classification_fails_def)
  from failed_classification_splits_nothing[OF h] h show ?thesis
    by simp
qed

text \<open>
  For comparison, the same document with a working OCR: the directory is rebuilt and the
  split files are written.
\<close>

lemma successful_split_example:
  "split_pdf (\<lambda>p. Inr [1, 2, 3 :: nat])
     (\<lambda>i. if i = 3 then Inr ''Ohio IT-1040'' else Inr ''Form 1040'')
     (\<lambda>p. Inr [10, 20, 30 :: nat]) ''comparison.pdf'' ''split_pdfs''
     (Some [(''split_pdfs/old.pdf'', [7])])
   = ([\<lparr>file_path = ''split_pdfs/1_Federal.pdf'', sp_form_type = Some ''Federal'',
        sp_pages = [1, 2]\<rparr>,
       \<lparr>file_path = ''split_pdfs/2_State__Ohio_IT1040.pdf'',
        sp_form_type = Some ''State - Ohio (IT-1040)'', sp_pages = [3]\<rparr>],
      Some [(''split_pdfs/1_Federal.pdf'', [10, 20]),
            (''split_pdfs/2_State__Ohio_IT1040.pdf'', [30])])"
  by code_simp


section \<open>Properties of the table structurer\<close>

subsection \<open>Character classes\<close>

lemma is_space_code: "is_space c = white_space c"
proof -
  have "list_all (\<lambda>c. is_space c = white_space c) Enum.enum"
    by code_simp
  then show ?thesis
    by (simp add: list_all_iff enum_UNIV)
qed

lemma is_digit_code: "is_digit c = decimal_digit c"
proof -
  have "list_all (\<lambda>c. is_digit c = decimal_digit c) Enum.enum"
    by code_simp
  then show ?thesis
    by (simp add: list_all_iff enum_UNIV)
qed

lemma is_space_fun: "is_space = white_space"
  by (rule ext) (rule is_space_code)

lemma is_digit_fun: "is_digit = decimal_digit"
  by (rule ext) (rule is_digit_code)

subsection \<open>Cleaning a value\<close>

lemma replace_char_remove: "replace_char c [] s = filter (\<lambda>x. x \<noteq> c) s"
  by (induction s) (simp_all add: replace_char_def)

lemma startswith_char: "startswith v [c] \<longleftrightarrow> v \<noteq> [] \<and> hd v = c"
  by (cases v) auto

lemma endswith_char: "endswith v [c] \<longleftrightarrow> v \<noteq> [] \<and> last v = c"
  by (cases v rule: rev_cases) (auto simp: endswith_def)

lemma clean_value_numeric:
  "clean_value v ''numeric'' =
     (let w = strip (filter (\<lambda>c. c \<notin> set ''$, |'') v)
      in if w \<noteq> [] \<and> hd w = CHR ''('' \<and> last w = CHR '')'' then CHR ''-'' # butlast (tl w)
         else w)"
proof -
  have f: "filter (\<lambda>x. x \<noteq> CHR ''|'') (filter (\<lambda>x. x \<noteq> CHR '' '')
             (filter (\<lambda>x. x \<noteq> CHR '','') (filter (\<lambda>x. x \<noteq> CHR ''$'') v)))
           = filter (\<lambda>c. c \<notin> set ''$, |'') v"
    by (induction v) auto
  have e: "strip [] = []"
    by (simp add: strip_def)
  show ?thesis
  proof (cases "v = []")
    case True
    then show ?thesis by (simp add: clean_value_def e)
  next
    case False
    then show ?thesis
      by (simp add: clean_value_def replace_char_remove f startswith_char endswith_char
            drop_Suc Let_def)
  qed
qed

lemma clean_value_text: "clean_value v ''text'' = strip v"
  by (simp add: clean_value_def strip_def)

lemma strip_trimmed: "trimmed_of (strip v) v"
proof -
  define u where "u = dropWhile is_space v"
  define b where "b = rev (takeWhile is_space (rev u))"
  have v: "v = takeWhile is_space v @ u"
    by (simp add: u_def)
  have "rev (dropWhile is_space (rev u)) @ rev (takeWhile is_space (rev u))
          = rev (takeWhile is_space (rev u) @ dropWhile is_space (rev u))"
    by (simp only: rev_append)
  also have "\<dots> = u"
    by (simp only: takeWhile_dropWhile_id rev_rev_ident)
  finally have u: "u = strip v @ b"
    by (simp add: strip_def u_def b_def)
  have a: "list_all white_space (takeWhile is_space v)"
    by (auto simp: list_all_iff is_space_code[symmetric] dest: set_takeWhileD)
  have bb: "list_all white_space b"
    by (auto simp: b_def list_all_iff is_space_code[symmetric] dest: set_takeWhileD)
  have ends: "\<not> white_space (hd (strip v)) \<and> \<not> white_space (last (strip v))"
    if ne: "strip v \<noteq> []"
  proof -
    from ne u have "u \<noteq> []"
      by auto
    then have "\<not> is_space (hd u)"
      unfolding u_def by (rule hd_dropWhile)
    moreover from u ne have "hd u = hd (strip v)"
      by (metis hd_append2)
    moreover from ne have "dropWhile is_space (rev u) \<noteq> []"
      by (simp add: strip_def u_def)
    then have "\<not> is_space (hd (dropWhile is_space (rev u)))"
      by (rule hd_dropWhile)
    moreover from ne have "last (strip v) = hd (dropWhile is_space (rev u))"
      by (simp add: strip_def u_def last_rev)
    ultimately show ?thesis
      by (simp add: is_space_code)
  qed
  from v u have "v = takeWhile is_space v @ strip v @ b"
    by simp
  with a bb ends show ?thesis
    unfolding trimmed_of_def by blast
qed

lemma trimmed_is_strip:
  assumes "trimmed_of w v"
  shows "w = strip v"
proof -
  from assms obtain a b where v: "v = a @ w @ b"
    and a: "list_all is_space a" and b: "list_all is_space b"
    and w: "w = [] \<or> (\<not> is_space (hd w) \<and> \<not> is_space (last w))"
    unfolding trimmed_of_def is_space_fun[symmetric] by blast
  from a have da: "dropWhile is_space (a @ xs) = dropWhile is_space xs" for xs
    by (simp add: dropWhile_append list_all_iff)
  from b have db: "dropWhile is_space (rev b @ xs) = dropWhile is_space xs" for xs
    by (simp add: dropWhile_append list_all_iff)
  show ?thesis
  proof (cases "w = []")
    case True
    from b have e: "dropWhile is_space b = []"
      by (simp add: list_all_iff dropWhile_eq_Nil_conv)
    have "strip (a @ [] @ b) = []"
      by (simp only: strip_def da append_Nil e rev.simps dropWhile.simps)
    with True show ?thesis
      by (simp only: v)
  next
    case False
    with w have h: "\<not> is_space (hd w)" and l: "\<not> is_space (last w)"
      by simp_all
    from False h have "dropWhile is_space (w @ b) = w @ b"
      by (cases w) simp_all
    moreover from False l have "dropWhile is_space (rev w) = rev w"
      by (cases w rule: rev_cases) simp_all
    ultimately show ?thesis
      by (simp add: strip_def v da db)
  qed
qed

lemma strip_iff_trimmed: "w = strip v \<longleftrightarrow> trimmed_of w v"
  using strip_trimmed trimmed_is_strip by blast

text \<open>
  Claim C5. With the type "numeric", cleaning removes every "$", ",", space and "|",
  trims the rest, and a result that starts with "(" and ends with ")" loses the two
  parentheses and gets "-" in front; "$(1,234.50)" becomes "-1234.50", "1,000" becomes
  "1000" and the empty value stays empty. With the type "text", cleaning only trims white
  space: the result is the value between its leading and its trailing white space, with
  white space inside kept.
\<close>

theorem clean_value_cases:
  "clean_value ''$(1,234.50)'' ''numeric'' = ''-1234.50''
   \<and> clean_value ''1,000'' ''numeric'' = ''1000''
   \<and> clean_value [] ''numeric'' = []
   \<and> clean_value v ''numeric'' =
       (let w = strip (filter (\<lambda>c. c \<notin> set ''$, |'') v)
        in if w \<noteq> [] \<and> hd w = CHR ''('' \<and> last w = CHR '')'' then CHR ''-'' # butlast (tl w)
           else w)
   \<and> clean_value v ''text'' = strip v
   \<and> (clean_value v ''text'' = w \<longleftrightarrow> trimmed_of w v)
   \<and> (clean_value v ''numeric'' = r
        \<longleftrightarrow> (\<exists>u. trimmed_of u (filter (\<lambda>c. c \<notin> set ''$, |'') v)
                \<and> r = (if u \<noteq> [] \<and> hd u = CHR ''('' \<and> last u = CHR '')''
                       then CHR ''-'' # butlast (tl u) else u)))
   \<and> clean_value ''  Total income  '' ''text'' = ''Total income''
   \<and> clean_value (CHR 0x09 # ''a b'' @ [CHR 0x0A, CHR 0xA0]) ''text'' = ''a b''
   \<and> clean_value ''$(1,234.50)'' ''text'' = ''$(1,234.50)''
   \<and> clean_value '' $ (1,234.50) '' ''numeric'' = ''-1234.50''
   \<and> clean_value (CHR 0x09 # ''( 7 | 5 )'' @ [CHR 0x0A]) ''numeric'' = ''-75''
   \<and> clean_value (''1'' @ [CHR 0x09] @ ''000'') ''numeric'' = ''1'' @ [CHR 0x09] @ ''000''
   \<and> clean_value ''(12'' ''numeric'' = ''(12''
   \<and> clean_value ''12)'' ''numeric'' = ''12)''
   \<and> clean_value ''()'' ''numeric'' = ''-''"
proof -
  have a: "clean_value ''$(1,234.50)'' ''numeric'' = ''-1234.50''"
    by (simp add: clean_value_def replace_char_def strip_def is_space_def endswith_def)
  have b: "clean_value ''1,000'' ''numeric'' = ''1000''"
    by (simp add: clean_value_def replace_char_def strip_def is_space_def endswith_def)
  have c: "clean_value [] ''numeric'' = []"
    by (simp add: clean_value_def)
  have d: "clean_value v ''text'' = w \<longleftrightarrow> trimmed_of w v"
    using strip_iff_trimmed[of w v] by (auto simp: clean_value_text)
  have e: "clean_value v ''numeric'' = r
        \<longleftrightarrow> (\<exists>u. trimmed_of u (filter (\<lambda>c. c \<notin> set ''$, |'') v)
                \<and> r = (if u \<noteq> [] \<and> hd u = CHR ''('' \<and> last u = CHR '')''
                       then CHR ''-'' # butlast (tl u) else u))"
    unfolding strip_iff_trimmed[symmetric] clean_value_numeric Let_def by auto
  have f: "clean_value ''  Total income  '' ''text'' = ''Total income''"
    by (simp add: clean_value_def strip_def is_space_def)
  have g: "clean_value (CHR 0x09 # ''a b'' @ [CHR 0x0A, CHR 0xA0]) ''text'' = ''a b''"
    by (simp add: clean_value_def strip_def is_space_def)
  have h: "clean_value ''$(1,234.50)'' ''text'' = ''$(1,234.50)''"
    by (simp add: clean_value_def strip_def is_space_def)
  have i: "clean_value '' $ (1,234.50) '' ''numeric'' = ''-1234.50''"
    by (simp add: clean_value_def replace_char_def strip_def is_space_def endswith_def)
  have j: "clean_value (CHR 0x09 # ''( 7 | 5 )'' @ [CHR 0x0A]) ''numeric'' = ''-75''"
    by (simp add: clean_value_def replace_char_def strip_def is_space_def endswith_def)
  have k: "clean_value (''1'' @ [CHR 0x09] @ ''000'') ''numeric''
             = ''1'' @ [CHR 0x09] @ ''000''"
    by (simp add: clean_value_def replace_char_def strip_def is_space_def endswith_def)
  have l: "clean_value ''(12'' ''numeric'' = ''(12''"
    by (simp add: clean_value_def replace_char_def strip_def is_space_def endswith_def)
  have m: "clean_value ''12)'' ''numeric'' = ''12)''"
    by (simp add: clean_value_def replace_char_def strip_def is_space_def endswith_def)
  have n: "clean_value ''()'' ''numeric'' = ''-''"
    by (simp add: clean_value_def replace_char_def strip_def is_space_def endswith_def)
  from a b c clean_value_numeric[of v] clean_value_text[of v] d e f g h i j k l m n
  show ?thesis
    by blast
qed

theorem clean_value_cases_witness:
  "trimmed_of ''Net (loss)'' (CHR 0x09 # '' Net (loss) '')
   \<and> clean_value (CHR 0x09 # '' Net (loss) '') ''text'' = ''Net (loss)''
   \<and> trimmed_of ''(1234.50)'' (filter (\<lambda>c. c \<notin> set ''$, |'') '' $ (1,234.50) '')
   \<and> clean_value '' $ (1,234.50) '' ''numeric'' = ''-1234.50''"
proof -
  have a: "strip (CHR 0x09 # '' Net (loss) '') = ''Net (loss)''"
    by (simp add: strip_def is_space_def)
  have b: "strip (filter (\<lambda>c. c \<notin> set ''$, |'') '' $ (1,234.50) '') = ''(1234.50)''"
    by (simp add: strip_def is_space_def)
  from clean_value_cases[where v = "CHR 0x09 # '' Net (loss) ''" and w = "''Net (loss)''"] a
  have c: "trimmed_of ''Net (loss)'' (CHR 0x09 # '' Net (loss) '')
           \<and> clean_value (CHR 0x09 # '' Net (loss) '') ''text'' = ''Net (loss)''"
    by metis
  from clean_value_cases[where v = "'' $ (1,234.50) ''" and w = "''(1234.50)''"
      and r = "''-1234.50''"] b strip_trimmed[of "filter (\<lambda>c. c \<notin> set ''$, |'') '' $ (1,234.50) ''"]
  have d: "trimmed_of ''(1234.50)'' (filter (\<lambda>c. c \<notin> set ''$, |'') '' $ (1,234.50) '')
           \<and> clean_value '' $ (1,234.50) '' ''numeric'' = ''-1234.50''"
    by metis
  from c d show ?thesis
    by blast
qed

subsection \<open>Inferring the type of a column\<close>

lemma py_get_nat: "c < length xs \<Longrightarrow> py_get xs (int c) = Inr (xs ! c)"
  by (simp add: py_get_def py_index_def)

lemma infer_loop_counts:
  "infer_loop rows (int c) nc tc =
     Inr (nc + length (filter (\<lambda>cell. cell \<noteq> [] \<and> re_search_numeric cell)
                 (map (\<lambda>r. r ! c) (filter (\<lambda>r. c < length r) rows))),
          tc + length (filter (\<lambda>cell. cell \<noteq> [] \<and> \<not> re_search_numeric cell)
                 (map (\<lambda>r. r ! c) (filter (\<lambda>r. c < length r) rows))))"
  by (induction rows arbitrary: nc tc) (auto simp: py_get_nat)

lemma infer_data_type_counts:
  "infer_data_type grid (int c) =
     Inr (if nonempty_non_matching_count grid c < nonempty_matching_count grid c
          then ''numeric'' else ''text'')"
  by (simp add: infer_data_type_def infer_loop_counts nonempty_matching_count_def
        nonempty_non_matching_count_def sampled_cells_def)





subsection \<open>Line items\<close>

lemma takeWhile_not_char: "c \<notin> set d \<Longrightarrow> takeWhile (\<lambda>x. x \<noteq> c) (d @ c # r) = d"
  by (induction d) auto

lemma dropWhile_not_char: "c \<notin> set d \<Longrightarrow> dropWhile (\<lambda>x. x \<noteq> c) (d @ c # r) = c # r"
  by (induction d) auto

lemma takeWhile_not_char_all: "c \<notin> set d \<Longrightarrow> takeWhile (\<lambda>x. x \<noteq> c) d = d"
  by (induction d) auto

lemma dropWhile_not_char_all: "c \<notin> set d \<Longrightarrow> dropWhile (\<lambda>x. x \<noteq> c) d = []"
  by (induction d) auto

lemma takeWhile_before_end:
  "c \<notin> set d \<Longrightarrow> nl = [] \<or> nl = [c] \<Longrightarrow> takeWhile (\<lambda>x. x \<noteq> c) (d @ nl) = d"
  by (induction d) auto

lemma dot_plus_end_iff:
  "dot_plus_end u = Some d
     \<longleftrightarrow> d \<noteq> [] \<and> CHR 0x0A \<notin> set d \<and> (u = d \<or> u = d @ [CHR 0x0A])"
proof
  assume h: "dot_plus_end u = Some d"
  then have d: "d = takeWhile (\<lambda>c. c \<noteq> CHR 0x0A) u" and ne: "d \<noteq> []"
    and r: "dropWhile (\<lambda>c. c \<noteq> CHR 0x0A) u = []
            \<or> dropWhile (\<lambda>c. c \<noteq> CHR 0x0A) u = [CHR 0x0A]"
    by (auto simp: dot_plus_end_def Let_def split: if_splits)
  have "u = takeWhile (\<lambda>c. c \<noteq> CHR 0x0A) u @ dropWhile (\<lambda>c. c \<noteq> CHR 0x0A) u"
    by simp
  with d r have "u = d \<or> u = d @ [CHR 0x0A]"
    by (metis append_Nil2)
  moreover have "CHR 0x0A \<notin> set d"
    unfolding d by (auto dest: set_takeWhileD)
  ultimately show "d \<noteq> [] \<and> CHR 0x0A \<notin> set d \<and> (u = d \<or> u = d @ [CHR 0x0A])"
    using ne by blast
next
  assume h: "d \<noteq> [] \<and> CHR 0x0A \<notin> set d \<and> (u = d \<or> u = d @ [CHR 0x0A])"
  then have ne: "d \<noteq> []" and nl: "CHR 0x0A \<notin> set d"
    and "u = d \<or> u = d @ [CHR 0x0A]"
    by simp_all
  from this(3) show "dot_plus_end u = Some d"
  proof
    assume "u = d"
    with ne show ?thesis
      by (simp add: dot_plus_end_def takeWhile_not_char_all[OF nl]
            dropWhile_not_char_all[OF nl])
  next
    assume "u = d @ [CHR 0x0A]"
    with ne show ?thesis
      by (simp add: dot_plus_end_def takeWhile_not_char[OF nl] dropWhile_not_char[OF nl])
  qed
qed

lemma ws_backtrack_first:
  "ws_backtrack k t = Some d \<Longrightarrow>
   \<exists>j\<le>k. dot_plus_end (drop j t) = Some d
          \<and> (\<forall>i. j < i \<and> i \<le> k \<longrightarrow> dot_plus_end (drop i t) = None)"
proof (induction k)
  case 0
  then show ?case by simp
next
  case (Suc k)
  show ?case
  proof (cases "dot_plus_end (drop (Suc k) t)")
    case None
    with Suc obtain j where j: "j \<le> k" "dot_plus_end (drop j t) = Some d"
      "\<forall>i. j < i \<and> i \<le> k \<longrightarrow> dot_plus_end (drop i t) = None"
      by auto
    have "\<forall>i. j < i \<and> i \<le> Suc k \<longrightarrow> dot_plus_end (drop i t) = None"
      using j(3) None by (auto simp: le_Suc_eq)
    with j(1,2) show ?thesis
      by (intro exI[of _ j]) simp
  next
    case (Some a)
    with Suc.prems have "dot_plus_end (drop (Suc k) t) = Some d"
      by simp
    moreover have "\<forall>i. Suc k < i \<and> i \<le> Suc k \<longrightarrow> dot_plus_end (drop i t) = None"
      by auto
    ultimately show ?thesis
      by blast
  qed
qed

lemma ws_backtrack_None:
  "ws_backtrack k t = None \<Longrightarrow> j \<le> k \<Longrightarrow> dot_plus_end (drop j t) = None"
proof (induction k)
  case 0
  then show ?case by simp
next
  case (Suc k)
  then show ?case
    by (cases "j = Suc k") (auto split: option.splits)
qed

text \<open>The parts of a match are where the matcher looks for them.\<close>

lemma line_pattern_parts:
  assumes "line_pattern val n ws d nl"
  shows "takeWhile is_digit val = n"
    and "dropWhile is_digit val = CHR ''.'' # ws @ d @ nl"
    and "length ws \<le> length (takeWhile is_space (ws @ d @ nl))"
    and "dot_plus_end (drop (length ws) (ws @ d @ nl)) = Some d"
proof -
  from assms have val: "val = n @ CHR ''.'' # ws @ d @ nl"
    and n: "list_all is_digit n" and ws: "list_all is_space ws"
    and d: "d \<noteq> []" "CHR 0x0A \<notin> set d" "nl = [] \<or> nl = [CHR 0x0A]"
    unfolding line_pattern_def is_digit_fun is_space_fun by simp_all
  have dot: "\<not> is_digit (CHR ''.'')"
    by (simp add: is_digit_def)
  from n dot show "takeWhile is_digit val = n"
    unfolding val by (simp add: takeWhile_append2 list_all_iff)
  from n dot show "dropWhile is_digit val = CHR ''.'' # ws @ d @ nl"
    unfolding val by (simp add: dropWhile_append2 list_all_iff)
  from ws have "takeWhile is_space (ws @ d @ nl) = ws @ takeWhile is_space (d @ nl)"
    by (simp add: takeWhile_append2 list_all_iff)
  then show "length ws \<le> length (takeWhile is_space (ws @ d @ nl))"
    by simp
  from d show "dot_plus_end (drop (length ws) (ws @ d @ nl)) = Some d"
    by (auto simp: dot_plus_end_iff)
qed

lemma line_pattern_matches:
  assumes "line_pattern val n ws d nl"
  shows "re_match_line_item val \<noteq> None"
proof
  assume none: "re_match_line_item val = None"
  from assms have ne: "n \<noteq> []"
    by (simp add: line_pattern_def)
  note p = line_pattern_parts[OF assms]
  from none ne p(1,2)
  have "ws_backtrack (length (takeWhile is_space (ws @ d @ nl))) (ws @ d @ nl) = None"
    by (simp add: re_match_line_item_def)
  from ws_backtrack_None[OF this p(3)] p(4) show False
    by simp
qed

lemma re_match_line_item_greedy:
  assumes "re_match_line_item val = Some (n, d)"
  shows "\<exists>ws nl. line_pattern val n ws d nl
           \<and> (\<forall>n' ws' d' nl'. line_pattern val n' ws' d' nl'
                  \<longrightarrow> n' = n \<and> length ws' \<le> length ws)"
proof -
  from assms obtain t where n: "n = takeWhile is_digit val" and ne: "n \<noteq> []"
    and rest: "dropWhile is_digit val = CHR ''.'' # t"
    and bt: "ws_backtrack (length (takeWhile is_space t)) t = Some d"
    by (auto simp: re_match_line_item_def Let_def split: if_splits list.splits)
  from ws_backtrack_first[OF bt] obtain j where j: "j \<le> length (takeWhile is_space t)"
    and dp: "dot_plus_end (drop j t) = Some d"
    and first: "\<forall>i. j < i \<and> i \<le> length (takeWhile is_space t)
                   \<longrightarrow> dot_plus_end (drop i t) = None"
    by blast
  from dp have d: "d \<noteq> []" "CHR 0x0A \<notin> set d"
    and u: "drop j t = d \<or> drop j t = d @ [CHR 0x0A]"
    by (simp_all add: dot_plus_end_iff)
  have "length (takeWhile is_space t) \<le> length t"
    by (rule length_takeWhile_le)
  with j have jt: "length (take j t) = j"
    by simp
  have "take j t = take j (takeWhile is_space t @ dropWhile is_space t)"
    by simp
  also have "\<dots> = take j (takeWhile is_space t)"
    using j by (simp only: take_append) simp
  finally have "set (take j t) \<subseteq> set (takeWhile is_space t)"
    by (metis set_take_subset)
  then have ws: "list_all white_space (take j t)"
    by (auto simp: list_all_iff is_space_code[symmetric] dest: set_takeWhileD)
  have "val = takeWhile is_digit val @ dropWhile is_digit val"
    by simp
  then have v: "val = n @ ''.'' @ take j t @ drop j t"
    by (simp add: n rest)
  have dig: "list_all decimal_digit n"
    unfolding n by (auto simp: list_all_iff is_digit_code[symmetric] dest: set_takeWhileD)
  from u obtain nl where nl: "drop j t = d @ nl" "nl = [] \<or> nl = [CHR 0x0A]"
    by auto
  from v have "val = n @ ''.'' @ take j t @ d @ nl"
    by (simp only: nl(1))
  with ne dig ws d nl(2) have pat: "line_pattern val n (take j t) d nl"
    by (simp add: line_pattern_def)
  have "n' = n \<and> length ws' \<le> length (take j t)"
    if other: "line_pattern val n' ws' d' nl'" for n' ws' d' nl'
  proof -
    note p = line_pattern_parts[OF other]
    from p(1) have "n' = n"
      by (simp add: n)
    from p(2) rest have t: "t = ws' @ d' @ nl'"
      by simp
    from p(3) have lw: "length ws' \<le> length (takeWhile is_space t)"
      by (simp only: t)
    from p(4) have dw: "dot_plus_end (drop (length ws') t) = Some d'"
      by (simp only: t)
    have "length ws' \<le> j"
    proof (rule ccontr)
      assume "\<not> length ws' \<le> j"
      then have "j < length ws'"
        by simp
      with first lw have "dot_plus_end (drop (length ws') t) = None"
        by blast
      with dw show False
        by simp
    qed
    with \<open>n' = n\<close> jt show ?thesis
      by simp
  qed
  with pat show ?thesis
    by blast
qed

text \<open>
  The matcher returns exactly the match of the pattern in which \<open>\s*\<close> takes the most
  white space, and returns none when the pattern has no match.
\<close>

lemma re_match_line_item_iff:
  "re_match_line_item val = Some (n, d)
     \<longleftrightarrow> (\<exists>ws nl. line_pattern val n ws d nl
            \<and> (\<forall>n' ws' d' nl'. line_pattern val n' ws' d' nl'
                   \<longrightarrow> length ws' \<le> length ws))"
proof
  assume "re_match_line_item val = Some (n, d)"
  from re_match_line_item_greedy[OF this]
  show "\<exists>ws nl. line_pattern val n ws d nl
            \<and> (\<forall>n' ws' d' nl'. line_pattern val n' ws' d' nl'
                   \<longrightarrow> length ws' \<le> length ws)"
    by blast
next
  assume "\<exists>ws nl. line_pattern val n ws d nl
            \<and> (\<forall>n' ws' d' nl'. line_pattern val n' ws' d' nl'
                   \<longrightarrow> length ws' \<le> length ws)"
  then obtain ws nl where pat: "line_pattern val n ws d nl"
    and mx: "\<And>n' ws' d' nl'. line_pattern val n' ws' d' nl' \<Longrightarrow> length ws' \<le> length ws"
    by blast
  from line_pattern_matches[OF pat] obtain n0 d0 where
    m: "re_match_line_item val = Some (n0, d0)"
    by (cases "re_match_line_item val") auto
  from re_match_line_item_greedy[OF m] obtain ws0 nl0 where
    pat0: "line_pattern val n0 ws0 d0 nl0"
    and mx0: "\<And>n' ws' d' nl'. line_pattern val n' ws' d' nl'
                \<Longrightarrow> n' = n0 \<and> length ws' \<le> length ws0"
    by blast
  from mx0[OF pat] have nn: "n = n0" and le1: "length ws \<le> length ws0"
    by simp_all
  from mx[OF pat0] have le2: "length ws0 \<le> length ws" .
  from pat pat0 have "n @ ''.'' @ ws @ d @ nl = n0 @ ''.'' @ ws0 @ d0 @ nl0"
    by (simp add: line_pattern_def)
  with nn have "ws @ d @ nl = ws0 @ d0 @ nl0"
    by simp
  with le1 le2 have e: "d @ nl = d0 @ nl0"
    by simp
  from pat pat0 have c: "CHR 0x0A \<notin> set d" "CHR 0x0A \<notin> set d0"
    "nl = [] \<or> nl = [CHR 0x0A]" "nl0 = [] \<or> nl0 = [CHR 0x0A]"
    by (simp_all add: line_pattern_def)
  have "takeWhile (\<lambda>c. c \<noteq> CHR 0x0A) (d @ nl) = d"
    using c(1,3) by (rule takeWhile_before_end)
  moreover have "takeWhile (\<lambda>c. c \<noteq> CHR 0x0A) (d0 @ nl0) = d0"
    using c(2,4) by (rule takeWhile_before_end)
  ultimately have "d = d0"
    using e by simp
  with m nn show "re_match_line_item val = Some (n, d)"
    by simp
qed

lemma try_extract_first: "try_extract_line_item fs = first_line_item fs"
proof (induction fs)
  case Nil
  then show ?case by (simp add: first_line_item_def)
next
  case (Cons f fs)
  show ?case
  proof (cases "re_match_line_item (f_value f)")
    case None
    with Cons show ?thesis by (simp add: first_line_item_def)
  next
    case (Some m)
    then show ?thesis by (cases m) (simp add: first_line_item_def)
  qed
qed

lemma build_fields_indices:
  "build_fields grid r c cols fs = Inr fs' \<Longrightarrow>
   map f_columnIndex fs' = map f_columnIndex fs @ map int [c..<c + length cols]"
proof (induction cols arbitrary: c fs)
  case Nil
  then show ?case by simp
next
  case (Cons col cols)
  from Cons.prems obtain v where
    rest: "build_fields grid r (Suc c) cols
             (fs @ [\<lparr>f_columnIndex = int c, f_columnId = columnId col,
                     f_columnName = columnName col, f_value = v,
                     cleanedValue = clean_value v (dataType col)\<rparr>]) = Inr fs'"
    by (auto split: sum.splits)
  have "c < c + length (col # cols)"
    by simp
  then have "[c..<c + length (col # cols)] = c # [Suc c..<c + length (col # cols)]"
    by (rule upt_conv_Cons)
  moreover have "c + length (col # cols) = Suc c + length cols"
    by simp
  ultimately have "[c..<c + length (col # cols)] = c # [Suc c..<Suc c + length cols]"
    by (simp only:)
  with Cons.IH[OF rest] show ?case
    by (simp del: upt_Suc)
qed

lemma build_row_item:
  "build_row grid cols r = Inr row \<Longrightarrow>
   lineItem row = first_line_item (row_fields row)
   \<and> map f_columnIndex (row_fields row) = map int [0..<length cols]"
  using build_fields_indices[of grid r 0 cols "[]"]
  by (auto simp: build_row_def try_extract_first split: sum.splits)

lemma build_rows_items:
  "build_rows grid cols rs acc = Inr rows \<Longrightarrow>
   list_all (\<lambda>row. lineItem row = first_line_item (row_fields row)
               \<and> map f_columnIndex (row_fields row) = map int [0..<length cols]) acc \<Longrightarrow>
   list_all (\<lambda>row. lineItem row = first_line_item (row_fields row)
               \<and> map f_columnIndex (row_fields row) = map int [0..<length cols]) rows"
proof (induction rs arbitrary: acc)
  case Nil
  then show ?case by simp
next
  case (Cons r rs)
  from Cons.prems(1) obtain row where row: "build_row grid cols r = Inr row"
    and rest: "build_rows grid cols rs (acc @ [row]) = Inr rows"
    by (auto split: sum.splits)
  from build_row_item[OF row] Cons.prems(2) show ?case
    by (intro Cons.IH[OF rest]) simp
qed

lemma structure_table_items:
  assumes "structure_table t = Inr td"
  shows "list_all (\<lambda>row. lineItem row = first_line_item (row_fields row)
               \<and> map f_columnIndex (row_fields row) = map int [0..<length (columns td)])
           (data td)"
proof -
  from assms obtain grid cols rows where
    rows: "build_rows grid cols [1..row_count t - 1] [] = Inr rows"
    and td: "columns td = cols" "data td = rows"
    by (auto simp: structure_table_def split: sum.splits)
  from build_rows_items[OF rows] td show ?thesis
    by simp
qed

text \<open>
  Claim C6. The line item of a row is the one derived from the first field, in column
  order, whose raw value matches the line pattern (group 1 as \<open>lineNumber\<close>, group 2 as
  \<open>description\<close>); a row has at most one line item (the attribute is optional), and none
  when no field matches. This holds of every row of a structured table, whose fields are in
  column order. A value matches when it is a non-empty run of digits, a dot, white space
  and a non-empty rest without line feed (but for one final line feed); the groups are
  those of the match in which the white space is longest. A field
  "12. Wages, salaries, tips" gives line number "12" and description
  "Wages, salaries, tips".
\<close>

theorem line_item_first_match:
  "try_extract_line_item fs = first_line_item fs
   \<and> (list_all (\<lambda>f. re_match_line_item (f_value f) = None) fs
        \<longrightarrow> try_extract_line_item fs = None)
   \<and> try_extract_line_item (f\<lparr>f_value := ''12. Wages, salaries, tips''\<rparr> # fs)
       = Some \<lparr>lineNumber = ''12'', description = ''Wages, salaries, tips''\<rparr>
   \<and> (structure_table t = Inr td
        \<longrightarrow> list_all (\<lambda>row. lineItem row = first_line_item (row_fields row)
               \<and> map f_columnIndex (row_fields row) = map int [0..<length (columns td)])
             (data td))
   \<and> (re_match_line_item val = Some (n, d)
        \<longleftrightarrow> (\<exists>ws nl. line_pattern val n ws d nl
               \<and> (\<forall>n' ws' d' nl'. line_pattern val n' ws' d' nl'
                      \<longrightarrow> length ws' \<le> length ws)))
   \<and> (re_match_line_item val = None \<longleftrightarrow> \<not> (\<exists>n ws d nl. line_pattern val n ws d nl))
   \<and> re_match_line_item ''12.'' = None
   \<and> re_match_line_item ''12Wages'' = None
   \<and> re_match_line_item ''.5 Wages'' = None
   \<and> re_match_line_item ''Line 12. Wages'' = None
   \<and> re_match_line_item (''12. Wages'' @ [CHR 0x0A] @ ''and tips'') = None
   \<and> re_match_line_item (''12. Wages'' @ [CHR 0x0A]) = Some (''12'', ''Wages'')
   \<and> re_match_line_item ''7.Interest'' = Some (''7'', ''Interest'')
   \<and> re_match_line_item (''8.'' @ [CHR 0x09, CHR 0x20] @ ''Other income '')
        = Some (''8'', ''Other income '')
   \<and> re_match_line_item ''9.  '' = Some (''9'', '' '')
   \<and> re_match_line_item ''1.2.3'' = Some (''1'', ''2.3'')"
proof -
  have a: "list_all (\<lambda>f. re_match_line_item (f_value f) = None) fs
        \<Longrightarrow> try_extract_line_item fs = None"
    by (induction fs) auto
  have b: "re_match_line_item ''12. Wages, salaries, tips''
             = Some (''12'', ''Wages, salaries, tips'')"
    by (simp add: re_match_line_item_def is_digit_def is_space_def dot_plus_end_def)
  have c: "try_extract_line_item (f\<lparr>f_value := ''12. Wages, salaries, tips''\<rparr> # fs)
       = Some \<lparr>lineNumber = ''12'', description = ''Wages, salaries, tips''\<rparr>"
    by (simp add: b)
  have d: "re_match_line_item val = None \<longleftrightarrow> \<not> (\<exists>n ws d nl. line_pattern val n ws d nl)"
  proof
    assume none: "re_match_line_item val = None"
    show "\<not> (\<exists>n ws d nl. line_pattern val n ws d nl)"
    proof
      assume "\<exists>n ws d nl. line_pattern val n ws d nl"
      then obtain n ws d nl where "line_pattern val n ws d nl"
        by blast
      from line_pattern_matches[OF this] none show False
        by simp
    qed
  next
    assume no: "\<not> (\<exists>n ws d nl. line_pattern val n ws d nl)"
    show "re_match_line_item val = None"
    proof (cases "re_match_line_item val")
      case None
      then show ?thesis .
    next
      case (Some m)
      then have "re_match_line_item val = Some (fst m, snd m)"
        by simp
      from re_match_line_item_greedy[OF this] no show ?thesis
        by blast
    qed
  qed
  have e: "re_match_line_item ''12.'' = None
     \<and> re_match_line_item ''12Wages'' = None
     \<and> re_match_line_item ''.5 Wages'' = None
     \<and> re_match_line_item ''Line 12. Wages'' = None
     \<and> re_match_line_item (''12. Wages'' @ [CHR 0x0A] @ ''and tips'') = None
     \<and> re_match_line_item (''12. Wages'' @ [CHR 0x0A]) = Some (''12'', ''Wages'')
     \<and> re_match_line_item ''7.Interest'' = Some (''7'', ''Interest'')
     \<and> re_match_line_item (''8.'' @ [CHR 0x09, CHR 0x20] @ ''Other income '')
          = Some (''8'', ''Other income '')
     \<and> re_match_line_item ''9.  '' = Some (''9'', '' '')
     \<and> re_match_line_item ''1.2.3'' = Some (''1'', ''2.3'')"
    by (simp add: re_match_line_item_def is_digit_def is_space_def dot_plus_end_def)
  from a c try_extract_first[of fs] structure_table_items[of t td]
    re_match_line_item_iff[of val n d] d e
  show ?thesis
    by blast
qed


theorem line_item_first_match_witness:
  "(\<exists>ws nl. line_pattern ''12. Wages, salaries, tips'' ''12'' ws ''Wages, salaries, tips'' nl)
   \<and> \<not> (\<exists>n ws d nl. line_pattern ''12.'' n ws d nl)
   \<and> list_all (\<lambda>f. re_match_line_item (f_value f) = None)
     [\<lparr>f_columnIndex = 0, f_columnId = ''col_0'', f_columnName = ''Line'',
       f_value = ''Total income'', cleanedValue = ''Total income''\<rparr>]
   \<and> try_extract_line_item
     [\<lparr>f_columnIndex = 0, f_columnId = ''col_0'', f_columnName = ''Line'',
       f_value = ''Total income'', cleanedValue = ''Total income''\<rparr>] = None
   \<and> \<not> isl (structure_table
       \<lparr>row_count = 3, column_count = 2,
        cells = [\<lparr>row_index = 0, column_index = 0, content = Some ''Line''\<rparr>,
                 \<lparr>row_index = 1, column_index = 0, content = Some ''Filing status''\<rparr>,
                 \<lparr>row_index = 1, column_index = 1,
                  content = Some ''12. Wages, salaries, tips''\<rparr>,
                 \<lparr>row_index = 2, column_index = 1, content = Some ''$(1,234.50)''\<rparr>]\<rparr>)
   \<and> map lineItem (data (projr (structure_table
       \<lparr>row_count = 3, column_count = 2,
        cells = [\<lparr>row_index = 0, column_index = 0, content = Some ''Line''\<rparr>,
                 \<lparr>row_index = 1, column_index = 0, content = Some ''Filing status''\<rparr>,
                 \<lparr>row_index = 1, column_index = 1,
                  content = Some ''12. Wages, salaries, tips''\<rparr>,
                 \<lparr>row_index = 2, column_index = 1, content = Some ''$(1,234.50)''\<rparr>]\<rparr>)))
     = [Some \<lparr>lineNumber = ''12'', description = ''Wages, salaries, tips''\<rparr>, None]
   \<and> list_all (\<lambda>row. lineItem row = first_line_item (row_fields row)
               \<and> map f_columnIndex (row_fields row) = map int [0..<length (columns
     (projr (structure_table
       \<lparr>row_count = 3, column_count = 2,
        cells = [\<lparr>row_index = 0, column_index = 0, content = Some ''Line''\<rparr>,
                 \<lparr>row_index = 1, column_index = 0, content = Some ''Filing status''\<rparr>,
                 \<lparr>row_index = 1, column_index = 1,
                  content = Some ''12. Wages, salaries, tips''\<rparr>,
                 \<lparr>row_index = 2, column_index = 1, content = Some ''$(1,234.50)''\<rparr>]\<rparr>)))])
     (data (projr (structure_table
       \<lparr>row_count = 3, column_count = 2,
        cells = [\<lparr>row_index = 0, column_index = 0, content = Some ''Line''\<rparr>,
                 \<lparr>row_index = 1, column_index = 0, content = Some ''Filing status''\<rparr>,
                 \<lparr>row_index = 1, column_index = 1,
                  content = Some ''12. Wages, salaries, tips''\<rparr>,
                 \<lparr>row_index = 2, column_index = 1, content = Some ''$(1,234.50)''\<rparr>]\<rparr>)))"
proof -
  have m: "re_match_line_item ''12. Wages, salaries, tips''
             = Some (''12'', ''Wages, salaries, tips'')"
    by (simp add: re_match_line_item_def is_digit_def is_space_def dot_plus_end_def)
  from line_item_first_match[where val = "''12. Wages, salaries, tips''" and n = "''12''"
      and d = "''Wages, salaries, tips''"] m
  have p: "\<exists>ws nl. line_pattern ''12. Wages, salaries, tips'' ''12'' ws
                     ''Wages, salaries, tips'' nl"
    by blast
  have "re_match_line_item ''12.'' = None"
    by (simp add: re_match_line_item_def is_digit_def is_space_def dot_plus_end_def)
  with line_item_first_match[where val = "''12.''"]
  have q: "\<not> (\<exists>n ws d nl. line_pattern ''12.'' n ws d nl)"
    by blast
  have a: "list_all (\<lambda>f. re_match_line_item (f_value f) = None)
     [\<lparr>f_columnIndex = 0, f_columnId = ''col_0'', f_columnName = ''Line'',
       f_value = ''Total income'', cleanedValue = ''Total income''\<rparr>]"
    by (simp add: re_match_line_item_def is_digit_def)
  have b: "\<not> isl (structure_table
       \<lparr>row_count = 3, column_count = 2,
        cells = [\<lparr>row_index = 0, column_index = 0, content = Some ''Line''\<rparr>,
                 \<lparr>row_index = 1, column_index = 0, content = Some ''Filing status''\<rparr>,
                 \<lparr>row_index = 1, column_index = 1,
                  content = Some ''12. Wages, salaries, tips''\<rparr>,
                 \<lparr>row_index = 2, column_index = 1, content = Some ''$(1,234.50)''\<rparr>]\<rparr>)"
    by code_simp
  have c: "map lineItem (data (projr (structure_table
       \<lparr>row_count = 3, column_count = 2,
        cells = [\<lparr>row_index = 0, column_index = 0, content = Some ''Line''\<rparr>,
                 \<lparr>row_index = 1, column_index = 0, content = Some ''Filing status''\<rparr>,
                 \<lparr>row_index = 1, column_index = 1,
                  content = Some ''12. Wages, salaries, tips''\<rparr>,
                 \<lparr>row_index = 2, column_index = 1, content = Some ''$(1,234.50)''\<rparr>]\<rparr>)))
     = [Some \<lparr>lineNumber = ''12'', description = ''Wages, salaries, tips''\<rparr>, None]"
    by code_simp
  from b have d: "structure_table
       \<lparr>row_count = 3, column_count = 2,
        cells = [\<lparr>row_index = 0, column_index = 0, content = Some ''Line''\<rparr>,
                 \<lparr>row_index = 1, column_index = 0, content = Some ''Filing status''\<rparr>,
                 \<lparr>row_index = 1, column_index = 1,
                  content = Some ''12. Wages, salaries, tips''\<rparr>,
                 \<lparr>row_index = 2, column_index = 1, content = Some ''$(1,234.50)''\<rparr>]\<rparr>
     = Inr (projr (structure_table
       \<lparr>row_count = 3, column_count = 2,
        cells = [\<lparr>row_index = 0, column_index = 0, content = Some ''Line''\<rparr>,
                 \<lparr>row_index = 1, column_index = 0, content = Some ''Filing status''\<rparr>,
                 \<lparr>row_index = 1, column_index = 1,
                  content = Some ''12. Wages, salaries, tips''\<rparr>,
                 \<lparr>row_index = 2, column_index = 1, content = Some ''$(1,234.50)''\<rparr>]\<rparr>))"
    by simp
  from line_item_first_match[of
      "[\<lparr>f_columnIndex = 0, f_columnId = ''col_0'', f_columnName = ''Line'',
         f_value = ''Total income'', cleanedValue = ''Total income''\<rparr>]"
      "\<lparr>f_columnIndex = 1, f_columnId = ''col_1'', f_columnName = ''Column_1'',
        f_value = [], cleanedValue = []\<rparr>"
      "\<lparr>row_count = 3, column_count = 2,
        cells = [\<lparr>row_index = 0, column_index = 0, content = Some ''Line''\<rparr>,
                 \<lparr>row_index = 1, column_index = 0, content = Some ''Filing status''\<rparr>,
                 \<lparr>row_index = 1, column_index = 1,
                  content = Some ''12. Wages, salaries, tips''\<rparr>,
                 \<lparr>row_index = 2, column_index = 1, content = Some ''$(1,234.50)''\<rparr>]\<rparr>"
      "projr (structure_table
       \<lparr>row_count = 3, column_count = 2,
        cells = [\<lparr>row_index = 0, column_index = 0, content = Some ''Line''\<rparr>,
                 \<lparr>row_index = 1, column_index = 0, content = Some ''Filing status''\<rparr>,
                 \<lparr>row_index = 1, column_index = 1,
                  content = Some ''12. Wages, salaries, tips''\<rparr>,
                 \<lparr>row_index = 2, column_index = 1, content = Some ''$(1,234.50)''\<rparr>]\<rparr>)"]
    a b c d p q
  show ?thesis
    by blast
qed


section \<open>Properties of the report\<close>

subsection \<open>The grid\<close>

lemma set_cells_dims: "set_cells grid cs = Inr g \<Longrightarrow> map length g = map length grid"
proof (induction cs arbitrary: grid)
  case Nil
  then show ?case by simp
next
  case (Cons cell cs)
  from Cons.prems obtain r c where r: "py_index (row_index cell) (length grid) = Some r"
    and rest: "set_cells
                 (grid[r := (grid ! r)[c := strip (case content cell of None \<Rightarrow> []
                                                   | Some s \<Rightarrow> s)]]) cs = Inr g"
    by (auto split: option.splits)
  from r have "r < length grid"
    by (auto simp: py_index_def split: if_splits)
  then have "(map length grid)[r := length (grid ! r)] = map length grid"
    by (metis length_map list_update_id nth_map)
  with Cons.IH[OF rest] show ?case
    by (simp add: map_update)
qed

text \<open>
  A grid that was built has \<open>row_count\<close> rows of \<open>column_count\<close> cells each (none when
  the count is negative), so the reads \<open>grid[r][c]\<close> of the loops over
  \<open>range(row_count)\<close> and \<open>range(column_count)\<close> are in range.
\<close>

lemma build_grid_dims:
  assumes "build_grid t = Inr grid"
  shows "length grid = nat (row_count t)
         \<and> list_all (\<lambda>r. length r = nat (column_count t)) grid"
proof -
  from set_cells_dims[OF assms[unfolded build_grid_def]]
  have m: "map length grid = replicate (nat (row_count t)) (nat (column_count t))"
    by simp
  then have "length (map length grid) = nat (row_count t)"
    by simp
  then have l: "length grid = nat (row_count t)"
    by simp
  have "length r = nat (column_count t)" if "r \<in> set grid" for r
  proof -
    from that have "length r \<in> set (map length grid)"
      by simp
    then show ?thesis
      unfolding m by simp
  qed
  with l show ?thesis
    by (simp add: list_all_iff)
qed

subsection \<open>The table loop skips a failing table\<close>

lemma hybrid_loop_acc:
  "hybrid_loop ts acc =
     acc @ List.map_filter
             (\<lambda>t. case structure_table t of Inl e \<Rightarrow> None | Inr td \<Rightarrow> Some td) ts"
  by (induction ts arbitrary: acc) (auto simp: map_filter_simps split: sum.splits)

text \<open>
  \<open>generate_hybrid_structure\<close> itself never raises: it returns the tables that are
  structured without an exception, in table order, and leaves the others out.
\<close>

lemma generate_hybrid_structure_structured:
  "generate_hybrid_structure result ft = structured_tables result"
  by (simp add: generate_hybrid_structure_def structured_tables_def hybrid_loop_acc)

lemma length_map_filter_le: "length (List.map_filter f xs) \<le> length xs"
  by (induction xs) (auto simp: map_filter_simps split: option.splits)

lemma structured_tables_le:
  "length (structured_tables result) \<le> length (tables_or_empty result)"
  by (simp add: structured_tables_def length_map_filter_le)

subsection \<open>Metadata\<close>

lemma fold_scan_name:
  "fold scan_cell cs md ''taxpayerName'' =
     (case md ''taxpayerName'' of Some v \<Rightarrow> Some v | None \<Rightarrow> find name_like cs)"
  by (induction cs arbitrary: md)
     (auto simp: scan_cell_def name_like_def Let_def split: option.splits)

lemma fold_scan_id:
  "fold scan_cell cs md ''taxpayerId'' =
     (case md ''taxpayerId'' of Some v \<Rightarrow> Some v | None \<Rightarrow> first_ssn cs)"
  by (induction cs arbitrary: md)
     (auto simp: scan_cell_def Let_def split: option.splits)

lemma find_append_case:
  "find P (xs @ ys) = (case find P xs of Some v \<Rightarrow> Some v | None \<Rightarrow> find P ys)"
  by (induction xs) auto

lemma first_ssn_append:
  "first_ssn (xs @ ys) = (case first_ssn xs of Some v \<Rightarrow> Some v | None \<Rightarrow> first_ssn ys)"
  by (induction xs) (auto split: option.splits)

lemma extract_tables_name:
  "extract_tables ts md = Inr md' \<Longrightarrow>
   md' ''taxpayerName'' =
     (case md ''taxpayerName'' of Some v \<Rightarrow> Some v
      | None \<Rightarrow> find name_like (concat (map table_scan ts)))"
  by (induction ts arbitrary: md)
     (auto simp: table_scan_def fold_scan_name find_append_case
           split: sum.splits option.splits)

lemma extract_tables_id:
  "extract_tables ts md = Inr md' \<Longrightarrow>
   md' ''taxpayerId'' =
     (case md ''taxpayerId'' of Some v \<Rightarrow> Some v
      | None \<Rightarrow> first_ssn (concat (map table_scan ts)))"
  by (induction ts arbitrary: md)
     (auto simp: table_scan_def fold_scan_id first_ssn_append
           split: sum.splits option.splits)

lemma processed_results_Nil: "processed_results client [] = []"
  by (simp add: processed_results_def map_filter_simps)

lemma processed_results_Cons:
  "processed_results client (p # ps) =
     (case run_azure_layout client (file_path p) of None \<Rightarrow> [] | Some r \<Rightarrow> [r])
     @ processed_results client ps"
  by (simp add: processed_results_def map_filter_simps split: option.splits)

lemma run_scan_Nil: "run_scan client [] = []"
  by (simp add: run_scan_def processed_results_Nil)

lemma run_scan_Cons:
  "run_scan client (p # ps) =
     (case run_azure_layout client (file_path p) of None \<Rightarrow> [] | Some r \<Rightarrow> document_scan r)
     @ run_scan client ps"
  by (simp add: run_scan_def processed_results_Cons split: option.splits)

text \<open>One step of the document loop that gets a layout result and does not raise.\<close>

lemma process_loop_step:
  assumes "process_loop client rep0 (p # ps) = Inr rep"
    and "run_azure_layout client (file_path p) = Some result"
  shows "\<exists>md. extract_metadata result (r_metadata rep0) = Inr md
    \<and> process_loop client
         (rep0\<lparr>pageCount := pageCount rep0
                  + int (length (case pages result of None \<Rightarrow> [] | Some ps \<Rightarrow> ps)),
               tableCount := tableCount rep0 + int (length (tables_or_empty result)),
               r_metadata := md,
               r_tables := r_tables rep0 @ structured_tables result\<rparr>) ps = Inr rep"
  using assms
  by (auto simp: Let_def generate_hybrid_structure_structured split: sum.splits)

lemma process_loop_name:
  "process_loop client rep0 sps = Inr rep \<Longrightarrow>
   r_metadata rep ''taxpayerName'' =
     (case r_metadata rep0 ''taxpayerName'' of Some v \<Rightarrow> Some v
      | None \<Rightarrow> find name_like (run_scan client sps))"
proof (induction sps arbitrary: rep0)
  case Nil
  then show ?case by (simp add: run_scan_Nil split: option.splits)
next
  case (Cons p ps)
  show ?case
  proof (cases "run_azure_layout client (file_path p)")
    case None
    with Cons show ?thesis
      by (simp add: run_scan_Cons split: option.splits)
  next
    case (Some result)
    from process_loop_step[OF Cons.prems Some] obtain md where
      md: "extract_tables (tables_or_empty result) (r_metadata rep0) = Inr md" and
      rest: "process_loop client
         (rep0\<lparr>pageCount := pageCount rep0
                  + int (length (case pages result of None \<Rightarrow> [] | Some ps \<Rightarrow> ps)),
               tableCount := tableCount rep0 + int (length (tables_or_empty result)),
               r_metadata := md,
               r_tables := r_tables rep0 @ structured_tables result\<rparr>) ps = Inr rep"
      by (auto simp: extract_metadata_def)
    from Cons.IH[OF rest] extract_tables_name[OF md] Some show ?thesis
      by (auto simp: run_scan_Cons document_scan_def find_append_case split: option.splits)
  qed
qed

lemma process_loop_id:
  "process_loop client rep0 sps = Inr rep \<Longrightarrow>
   r_metadata rep ''taxpayerId'' =
     (case r_metadata rep0 ''taxpayerId'' of Some v \<Rightarrow> Some v
      | None \<Rightarrow> first_ssn (run_scan client sps))"
proof (induction sps arbitrary: rep0)
  case Nil
  then show ?case by (simp add: run_scan_Nil split: option.splits)
next
  case (Cons p ps)
  show ?case
  proof (cases "run_azure_layout client (file_path p)")
    case None
    with Cons show ?thesis
      by (simp add: run_scan_Cons split: option.splits)
  next
    case (Some result)
    from process_loop_step[OF Cons.prems Some] obtain md where
      md: "extract_tables (tables_or_empty result) (r_metadata rep0) = Inr md" and
      rest: "process_loop client
         (rep0\<lparr>pageCount := pageCount rep0
                  + int (length (case pages result of None \<Rightarrow> [] | Some ps \<Rightarrow> ps)),
               tableCount := tableCount rep0 + int (length (tables_or_empty result)),
               r_metadata := md,
               r_tables := r_tables rep0 @ structured_tables result\<rparr>) ps = Inr rep"
      by (auto simp: extract_metadata_def)
    from Cons.IH[OF rest] extract_tables_id[OF md] Some show ?thesis
      by (auto simp: run_scan_Cons document_scan_def first_ssn_append split: option.splits)
  qed
qed

lemma str_in_char: "str_in [c] s \<longleftrightarrow> c \<in> set s"
  by (induction s) auto

lemma name_like_cell: "name_like cell = name_cell cell"
  by (auto simp: name_like_def name_cell_def str_in_char)

lemma name_like_fun: "name_like = name_cell"
  by (rule ext) (rule name_like_cell)

lemma shape_char_digit: "shape_char c = CHR ''d'' \<longleftrightarrow> is_digit c"
  by (simp add: shape_char_def is_digit_code)

lemma minus_no_digit: "\<not> decimal_digit (CHR ''-'')"
  by code_simp

lemma shape_char_minus: "shape_char c = CHR ''-'' \<longleftrightarrow> c = CHR ''-''"
  using minus_no_digit by (auto simp: shape_char_def)

lemma ssn_here_shaped:
  "ssn_here s = (if ssn_shaped (take 11 s) then Some (take 11 s) else None)"
proof (cases "11 \<le> length s")
  case False
  then have "length (map shape_char (take 11 s)) \<noteq> length ''ddd-dd-dddd''"
    by simp
  then have "\<not> ssn_shaped (take 11 s)"
    unfolding ssn_shaped_def by metis
  with False show ?thesis
    by (simp add: ssn_here_def)
next
  case True
  then obtain a0 a1 a2 a3 a4 a5 a6 a7 a8 a9 a10 r where
    s: "s = a0 # a1 # a2 # a3 # a4 # a5 # a6 # a7 # a8 # a9 # a10 # r"
    by (auto simp: eval_nat_numeral Suc_le_length_iff)
  show ?thesis
    unfolding s
    by (auto simp: ssn_here_def ssn_shaped_def shape_char_digit shape_char_minus)
qed

lemma leftmost_ssn_Nil: "leftmost_ssn [] = None"
  by (simp add: leftmost_ssn_def)

lemma leftmost_ssn_Cons:
  "leftmost_ssn (c # cs) =
     (if ssn_shaped (take 11 (c # cs)) then Some (take 11 (c # cs)) else leftmost_ssn cs)"
proof -
  have "[0..<length (c # cs)] = 0 # map Suc [0..<length cs]"
    by (simp add: upt_conv_Cons map_Suc_upt del: upt_Suc)
  then show ?thesis
    by (simp add: leftmost_ssn_def comp_def del: upt_Suc)
qed

lemma re_search_leftmost: "re_search_ssn cell = leftmost_ssn cell"
  by (induction cell) (simp_all add: leftmost_ssn_Nil leftmost_ssn_Cons ssn_here_shaped)

lemma first_id_Nil: "first_id [] = None"
  by (simp add: first_id_def map_filter_simps)

lemma first_id_Cons:
  "first_id (cell # rest) =
     (case leftmost_ssn cell of Some ssn \<Rightarrow> Some ssn | None \<Rightarrow> first_id rest)"
  by (simp add: first_id_def map_filter_simps split: option.splits)

lemma first_ssn_first_id: "first_ssn cs = first_id cs"
  by (induction cs)
     (simp_all add: first_id_Nil first_id_Cons re_search_leftmost split: option.splits)

lemma map_nth_take: "k \<le> length xs \<Longrightarrow> map (\<lambda>i. xs ! i) [0..<k] = take k xs"
  by (rule nth_equalityI) simp_all

lemma scanned_rows:
  assumes "length grid = nat (row_count t)"
    and "list_all (\<lambda>r. length r = nat (column_count t)) grid"
  shows "scanned_cells grid t = concat (take 3 grid)"
proof -
  have k: "nat (min 3 (row_count t)) = min 3 (length grid)"
    using assms(1) by simp
  have "map (\<lambda>c. grid ! r ! c) [0..<nat (column_count t)] = grid ! r"
    if "r < min 3 (length grid)" for r
  proof -
    from that assms(2) have "length (grid ! r) = nat (column_count t)"
      by (simp add: list_all_length)
    then show ?thesis
      by (metis map_nth)
  qed
  then have "map (\<lambda>r. map (\<lambda>c. grid ! r ! c) [0..<nat (column_count t)])
               [0..<min 3 (length grid)]
             = map (\<lambda>r. grid ! r) [0..<min 3 (length grid)]"
    by simp
  also have "\<dots> = take (min 3 (length grid)) grid"
    by (rule map_nth_take) simp
  also have "\<dots> = take 3 grid"
    by (simp add: min_def)
  finally show ?thesis
    by (simp add: scanned_cells_def k)
qed

lemma table_scan_rows: "table_scan t = rows_0_to_2 t"
proof (cases "build_grid t")
  case (Inl e)
  then show ?thesis by (simp add: table_scan_def rows_0_to_2_def)
next
  case (Inr grid)
  from build_grid_dims[OF Inr] have "scanned_cells grid t = concat (take 3 grid)"
    by (intro scanned_rows) simp_all
  with Inr show ?thesis
    by (simp add: table_scan_def rows_0_to_2_def)
qed

lemma run_scan_cells: "run_scan client split_pdfs = run_cells client split_pdfs"
proof -
  have ts: "table_scan = rows_0_to_2"
    by (rule ext) (rule table_scan_rows)
  have "document_scan = (\<lambda>result. concat (map rows_0_to_2 (tables_or_empty result)))"
    by (rule ext) (simp add: document_scan_def ts)
  then show ?thesis
    by (simp add: run_scan_def run_cells_def)
qed

text \<open>
  Claim C3. Take the document loop of \<open>process_split_pdfs\<close> from any report reached so
  far and let it return a report. A key that is already recorded keeps its value: no later
  cell of the same or a later document changes it. A key that is not yet recorded gets the
  first match among the cells of rows 0 to 2 of the table grids, taken document by
  document, table by table, row by row and from left to right in each row:
  \<open>taxpayerName\<close> the first cell containing "&" with more than 10 characters,
  \<open>taxpayerId\<close> the leftmost substring of the shape ddd-dd-dddd of the first cell that has
  one; it stays unrecorded when there is no match. (\<open>process_split_pdfs\<close> is this loop
  from the empty report.)
\<close>

theorem metadata_first_match_wins:
  assumes "process_loop client rep0 split_pdfs = Inr rep"
  shows "r_metadata rep ''taxpayerName'' =
           (case r_metadata rep0 ''taxpayerName'' of
              Some v \<Rightarrow> Some v
            | None \<Rightarrow> find name_like (run_scan client split_pdfs))
       \<and> r_metadata rep ''taxpayerId'' =
           (case r_metadata rep0 ''taxpayerId'' of
              Some v \<Rightarrow> Some v
            | None \<Rightarrow> first_ssn (run_scan client split_pdfs))
       \<and> r_metadata rep ''taxpayerName'' =
           (case r_metadata rep0 ''taxpayerName'' of
              Some v \<Rightarrow> Some v
            | None \<Rightarrow> find name_cell (run_cells client split_pdfs))
       \<and> r_metadata rep ''taxpayerId'' =
           (case r_metadata rep0 ''taxpayerId'' of
              Some v \<Rightarrow> Some v
            | None \<Rightarrow> first_id (run_cells client split_pdfs))"
proof -
  have f: "first_ssn = first_id"
    by (rule ext) (rule first_ssn_first_id)
  from process_loop_name[OF assms] process_loop_id[OF assms] show ?thesis
    by (simp add: run_scan_cells name_like_fun f split: option.splits)
qed

theorem metadata_first_match_wins_witness:
  "\<not> isl (process_split_pdfs example_scan_client example_split_pdfs)
   \<and> run_cells example_scan_client example_split_pdfs
      = [''Schedule'', [], ''Part I'',
         ''No & 1-2-3'', ''id 1234-56-78901'',
         ''555-66-7777'', ''Pat & Sam Lee, joint'',
         ''Kim & Lou Park, joint'', [],
         ''Ann & Joe Roe, joint 777-88-9999'']
   \<and> r_metadata (projr (process_split_pdfs example_scan_client example_split_pdfs))
        ''taxpayerName'' = Some ''Pat & Sam Lee, joint''
   \<and> r_metadata (projr (process_split_pdfs example_scan_client example_split_pdfs))
        ''taxpayerId'' = Some ''234-56-7890''
   \<and> \<not> isl (process_split_pdfs example_client example_split_pdfs)
   \<and> r_metadata (projr (process_split_pdfs example_client example_split_pdfs))
        ''taxpayerName'' = Some ''John & Jane Doe''
   \<and> r_metadata (projr (process_split_pdfs example_client example_split_pdfs))
        ''taxpayerId'' = Some ''111-22-3333''"
proof -
  have a: "\<not> isl (process_split_pdfs example_scan_client example_split_pdfs)"
    by code_simp
  then have h: "process_loop example_scan_client
        \<lparr>pageCount = 0, tableCount = 0, r_metadata = Map.empty, r_tables = []\<rparr>
        example_split_pdfs
      = Inr (projr (process_split_pdfs example_scan_client example_split_pdfs))"
    by (simp add: process_split_pdfs_def)
  have b: "run_cells example_scan_client example_split_pdfs
      = [''Schedule'', [], ''Part I'',
         ''No & 1-2-3'', ''id 1234-56-78901'',
         ''555-66-7777'', ''Pat & Sam Lee, joint'',
         ''Kim & Lou Park, joint'', [],
         ''Ann & Joe Roe, joint 777-88-9999'']"
    by code_simp
  have c: "find name_cell
       [''Schedule'', [], ''Part I'',
         ''No & 1-2-3'', ''id 1234-56-78901'',
         ''555-66-7777'', ''Pat & Sam Lee, joint'',
         ''Kim & Lou Park, joint'', [],
         ''Ann & Joe Roe, joint 777-88-9999'']
      = Some ''Pat & Sam Lee, joint''"
    by (simp add: name_cell_def)
  have d: "first_id
       [''Schedule'', [], ''Part I'',
         ''No & 1-2-3'', ''id 1234-56-78901'',
         ''555-66-7777'', ''Pat & Sam Lee, joint'',
         ''Kim & Lou Park, joint'', [],
         ''Ann & Joe Roe, joint 777-88-9999'']
      = Some ''234-56-7890''"
    by code_simp
  have a': "\<not> isl (process_split_pdfs example_client example_split_pdfs)"
    by code_simp
  then have h': "process_loop example_client
        \<lparr>pageCount = 0, tableCount = 0, r_metadata = Map.empty, r_tables = []\<rparr>
        example_split_pdfs
      = Inr (projr (process_split_pdfs example_client example_split_pdfs))"
    by (simp add: process_split_pdfs_def)
  have b': "find name_like (run_scan example_client example_split_pdfs)
             = Some ''John & Jane Doe''"
    by code_simp
  have c': "first_ssn (run_scan example_client example_split_pdfs) = Some ''111-22-3333''"
    by code_simp
  have n1: "r_metadata (projr (process_split_pdfs example_scan_client example_split_pdfs))
             ''taxpayerName'' = find name_cell (run_cells example_scan_client example_split_pdfs)"
    using metadata_first_match_wins[OF h, THEN conjunct2, THEN conjunct2, THEN conjunct1]
    by simp
  have n2: "r_metadata (projr (process_split_pdfs example_scan_client example_split_pdfs))
             ''taxpayerId'' = first_id (run_cells example_scan_client example_split_pdfs)"
    using metadata_first_match_wins[OF h, THEN conjunct2, THEN conjunct2, THEN conjunct2]
    by simp
  have e1: "r_metadata (projr (process_split_pdfs example_scan_client example_split_pdfs))
             ''taxpayerName'' = Some ''Pat & Sam Lee, joint''"
    by (simp only: n1 b c)
  have e2: "r_metadata (projr (process_split_pdfs example_scan_client example_split_pdfs))
             ''taxpayerId'' = Some ''234-56-7890''"
    by (simp only: n2 b d)
  from metadata_first_match_wins[OF h', THEN conjunct1]
       metadata_first_match_wins[OF h', THEN conjunct2, THEN conjunct1] b' c'
  have e': "r_metadata (projr (process_split_pdfs example_client example_split_pdfs))
             ''taxpayerName'' = Some ''John & Jane Doe''
           \<and> r_metadata (projr (process_split_pdfs example_client example_split_pdfs))
             ''taxpayerId'' = Some ''111-22-3333''"
    by simp
  from a b e1 e2 a' e' show ?thesis
    by blast
qed

subsection \<open>The table count\<close>

lemma process_loop_counts:
  "process_loop client rep0 sps = Inr rep \<Longrightarrow>
   tableCount rep = tableCount rep0
      + (\<Sum>r\<leftarrow>processed_results client sps. int (length (tables_or_empty r)))
   \<and> r_tables rep
      = r_tables rep0 @ concat (map structured_tables (processed_results client sps))"
proof (induction sps arbitrary: rep0)
  case Nil
  then show ?case by (simp add: processed_results_Nil)
next
  case (Cons p ps)
  show ?case
  proof (cases "run_azure_layout client (file_path p)")
    case None
    with Cons show ?thesis
      by (simp add: processed_results_Cons)
  next
    case (Some result)
    from process_loop_step[OF Cons.prems Some] obtain md where
      rest: "process_loop client
         (rep0\<lparr>pageCount := pageCount rep0
                  + int (length (case pages result of None \<Rightarrow> [] | Some ps \<Rightarrow> ps)),
               tableCount := tableCount rep0 + int (length (tables_or_empty result)),
               r_metadata := md,
               r_tables := r_tables rep0 @ structured_tables result\<rparr>) ps = Inr rep"
      by blast
    from Cons.IH[OF rest] Some show ?thesis
      by (simp add: processed_results_Cons)
  qed
qed

lemma structured_total_le:
  "int (length (concat (map structured_tables rs)))
     \<le> (\<Sum>r\<leftarrow>rs. int (length (tables_or_empty r)))"
proof (induction rs)
  case Nil
  then show ?case by simp
next
  case (Cons r rs)
  from structured_tables_le[of r] Cons show ?case
    by simp
qed

text \<open>
  Claim C10. In the report of a run, \<open>tableCount\<close> is the number of tables that the layout
  service returned for the processed documents, counted before structuring, and the table
  list holds the tables that were structured without an exception; so \<open>tableCount\<close> is at
  least the length of the table list.
\<close>

theorem table_count_bounds_tables:
  assumes "process_split_pdfs client split_pdfs = Inr rep"
  shows "int (length (r_tables rep)) \<le> tableCount rep
       \<and> tableCount rep
          = (\<Sum>r\<leftarrow>processed_results client split_pdfs. int (length (tables_or_empty r)))
       \<and> r_tables rep
          = concat (map structured_tables (processed_results client split_pdfs))"
proof -
  from assms have "process_loop client
      \<lparr>pageCount = 0, tableCount = 0, r_metadata = Map.empty, r_tables = []\<rparr> split_pdfs
      = Inr rep"
    by (simp add: process_split_pdfs_def)
  from process_loop_counts[OF this]
  have c: "tableCount rep
          = (\<Sum>r\<leftarrow>processed_results client split_pdfs. int (length (tables_or_empty r)))"
    and t: "r_tables rep
          = concat (map structured_tables (processed_results client split_pdfs))"
    by simp_all
  from structured_total_le[of "processed_results client split_pdfs"] c t
  have "int (length (r_tables rep)) \<le> tableCount rep"
    by simp
  with c t show ?thesis
    by blast
qed

theorem table_count_bounds_tables_witness:
  "\<not> isl (process_split_pdfs example_client example_split_pdfs)
   \<and> tableCount (projr (process_split_pdfs example_client example_split_pdfs)) = 3
   \<and> length (r_tables (projr (process_split_pdfs example_client example_split_pdfs))) = 2
   \<and> int (length (r_tables (projr (process_split_pdfs example_client example_split_pdfs))))
       \<le> tableCount (projr (process_split_pdfs example_client example_split_pdfs))"
proof -
  have a: "\<not> isl (process_split_pdfs example_client example_split_pdfs)"
    by code_simp
  then have h: "process_split_pdfs example_client example_split_pdfs
      = Inr (projr (process_split_pdfs example_client example_split_pdfs))"
    by simp
  have b: "tableCount (projr (process_split_pdfs example_client example_split_pdfs)) = 3"
    by code_simp
  have c: "length (r_tables (projr (process_split_pdfs example_client example_split_pdfs))) = 2"
    by code_simp
  from table_count_bounds_tables[OF h] a b c show ?thesis
    by blast
qed

subsection \<open>A table with a cell outside its grid\<close>

text \<open>
  Claim C7 on a document whose first table has a cell outside its grid. Structuring that
  table raises \<open>IndexError\<close>; \<open>generate_hybrid_structure\<close> catches it, leaves the table
  out and returns the other table of the document. But \<open>process_split_pdfs\<close> calls
  \<open>extract_metadata\<close> first, which builds the same grid outside any \<open>try\<close>: the exception
  leaves \<open>process_split_pdfs\<close> and the run returns no report.
\<close>

theorem overflow_table_aborts_run:
  "structure_table example_overflow_table = Inl IndexError
   \<and> \<not> isl (structure_table example_federal_table)
   \<and> generate_hybrid_structure
        \<lparr>pages = Some [\<lparr>page_number = 1\<rparr>],
         tables = Some [example_overflow_table, example_federal_table]\<rparr> ''Federal''
      = [projr (structure_table example_federal_table)]
   \<and> isl (extract_metadata
        \<lparr>pages = Some [\<lparr>page_number = 1\<rparr>],
         tables = Some [example_overflow_table, example_federal_table]\<rparr> Map.empty)
   \<and> isl (process_split_pdfs example_overflow_client example_split_pdfs)
   \<and> projl (process_split_pdfs example_overflow_client example_split_pdfs) = IndexError"
proof -
  have a: "structure_table example_overflow_table = Inl IndexError"
    by (simp add: structure_table_def build_grid_def example_overflow_table_def
          py_index_def)
  have b: "\<not> isl (structure_table example_federal_table)"
    by code_simp
  have c: "generate_hybrid_structure
        \<lparr>pages = Some [\<lparr>page_number = 1\<rparr>],
         tables = Some [example_overflow_table, example_federal_table]\<rparr> ''Federal''
      = [projr (structure_table example_federal_table)]"
    using b by (cases "structure_table example_federal_table")
      (simp_all add: generate_hybrid_structure_def tables_or_empty_def a)
  have d: "isl (extract_metadata
        \<lparr>pages = Some [\<lparr>page_number = 1\<rparr>],
         tables = Some [example_overflow_table, example_federal_table]\<rparr> Map.empty)"
    by (simp add: extract_metadata_def tables_or_empty_def build_grid_def
          example_overflow_table_def py_index_def)
  have e: "isl (process_split_pdfs example_overflow_client example_split_pdfs)"
    by code_simp
  have f: "projl (process_split_pdfs example_overflow_client example_split_pdfs) = IndexError"
    by code_simp
  from a b c d e f show ?thesis
    by blast
qed

text \<open>
  The one kind of table that fails in structuring only, a table with columns and no row,
  is skipped as the claim says, and the run goes on.
\<close>

lemma rowless_table_is_skipped:
  "structure_table example_rowless_table = Inl IndexError
   \<and> \<not> isl (process_split_pdfs example_client example_split_pdfs)
   \<and> map rowCount (r_tables (projr (process_split_pdfs example_client example_split_pdfs)))
      = [3, 2]"
proof -
  have a: "structure_table example_rowless_table = Inl IndexError"
    by code_simp
  have b: "\<not> isl (process_split_pdfs example_client example_split_pdfs)"
    by code_simp
  have c: "map rowCount
             (r_tables (projr (process_split_pdfs example_client example_split_pdfs)))
           = [3, 2]"
    by code_simp
  from a b c show ?thesis
    by blast
qed


subsection \<open>Which tables fail, and where\<close>

lemma define_columns_ok:
  "grid \<noteq> [] \<Longrightarrow> list_all (\<lambda>c. c < length (hd grid)) cs \<Longrightarrow>
   \<exists>cols. define_columns grid cs acc = Inr cols \<and> length cols = length acc + length cs"
proof (induction cs arbitrary: acc)
  case Nil
  then show ?case by simp
next
  case (Cons c cs)
  from Cons.prems(1) have g: "py_get grid 0 = Inr (hd grid)"
    by (cases grid) (simp_all add: py_get_def py_index_def)
  from Cons.prems(2) have h: "py_get (hd grid) (int c) = Inr (hd grid ! c)"
    by (simp add: py_get_nat)
  obtain dt where dt: "infer_data_type grid (int c) = Inr dt"
    by (simp add: infer_data_type_counts)
  from Cons.prems(2) have "list_all (\<lambda>c. c < length (hd grid)) cs"
    by simp
  from Cons.IH[OF Cons.prems(1) this,
      of "acc @ [\<lparr>columnIndex = int c, columnId = ''col_'' @ str_int (int c),
                  columnName = (if hd grid ! c = [] then ''Column_'' @ str_int (int c)
                                else hd grid ! c),
                  dataType = dt\<rparr>]"]
  show ?case
    by (simp add: g h dt)
qed

lemma define_columns_empty_grid: "cs \<noteq> [] \<Longrightarrow> isl (define_columns [] cs acc)"
  by (cases cs) (simp_all add: py_get_def py_index_def)

lemma build_fields_ok:
  "py_get grid r = Inr row \<Longrightarrow> c + length cols \<le> length row \<Longrightarrow>
   \<exists>fs'. build_fields grid r c cols fs = Inr fs'"
proof (induction cols arbitrary: c fs)
  case Nil
  then show ?case by simp
next
  case (Cons col cols)
  from Cons.prems(2) have "py_get row (int c) = Inr (row ! c)"
    by (simp add: py_get_nat)
  moreover from Cons.prems(2) have "Suc c + length cols \<le> length row"
    by simp
  ultimately show ?case
    using Cons.IH[OF Cons.prems(1)] Cons.prems(1) by simp
qed

lemma build_rows_ok:
  "list_all (\<lambda>r. \<exists>row. py_get grid r = Inr row \<and> length cols \<le> length row) rs \<Longrightarrow>
   \<exists>rows. build_rows grid cols rs acc = Inr rows"
proof (induction rs arbitrary: acc)
  case Nil
  then show ?case by simp
next
  case (Cons r rs)
  from Cons.prems obtain row where "py_get grid r = Inr row" "length cols \<le> length row"
    by auto
  from build_fields_ok[OF this(1), of 0 cols "[]"] this(2)
  obtain fs where "build_fields grid r 0 cols [] = Inr fs"
    by auto
  moreover from Cons.prems have
    "list_all (\<lambda>r. \<exists>row. py_get grid r = Inr row \<and> length cols \<le> length row) rs"
    by simp
  ultimately show ?case
    using Cons.IH by (simp add: build_row_def)
qed

text \<open>
  Structuring a table raises exactly when a cell lies outside the grid (the grid cannot be
  built) or the table has columns and no row (the header row is read from an empty grid).
\<close>

lemma structure_table_fails_iff:
  "isl (structure_table t)
     \<longleftrightarrow> isl (build_grid t) \<or> (row_count t \<le> 0 \<and> 0 < column_count t)"
proof (cases "build_grid t")
  case (Inl e)
  then show ?thesis by (simp add: structure_table_def)
next
  case (Inr grid)
  from build_grid_dims[OF Inr] have len: "length grid = nat (row_count t)"
    and rows: "list_all (\<lambda>r. length r = nat (column_count t)) grid"
    by simp_all
  show ?thesis
  proof (cases "row_count t \<le> 0 \<and> 0 < column_count t")
    case True
    with len have "grid = []" "[0..<nat (column_count t)] \<noteq> []"
      by simp_all
    then have "isl (define_columns grid [0..<nat (column_count t)] [])"
      using define_columns_empty_grid by blast
    with Inr True show ?thesis
      by (auto simp: structure_table_def isl_def)
  next
    case False
    have "\<exists>cols. define_columns grid [0..<nat (column_count t)] [] = Inr cols
            \<and> length cols = nat (column_count t)"
    proof (cases "0 < column_count t")
      case True
      with False len have ne: "grid \<noteq> []"
        by auto
      with rows have "length (hd grid) = nat (column_count t)"
        by (cases grid) simp_all
      then have "list_all (\<lambda>c. c < length (hd grid)) [0..<nat (column_count t)]"
        by (simp add: list_all_iff)
      from define_columns_ok[OF ne this, of "[]"] show ?thesis
        by simp
    next
      case False
      then show ?thesis by simp
    qed
    then obtain cols where cols: "define_columns grid [0..<nat (column_count t)] [] = Inr cols"
      and lc: "length cols = nat (column_count t)"
      by blast
    have "\<exists>row. py_get grid r = Inr row \<and> length cols \<le> length row"
      if "r \<in> set [1..row_count t - 1]" for r
    proof -
      from that have r: "1 \<le> r" "r < row_count t"
        by simp_all
      with len have i: "py_index r (length grid) = Some (nat r)" and n: "nat r < length grid"
        by (simp_all add: py_index_def)
      from n rows have "length (grid ! nat r) = nat (column_count t)"
        by (simp add: list_all_length)
      with i lc show ?thesis
        by (simp add: py_get_def)
    qed
    then have "list_all (\<lambda>r. \<exists>row. py_get grid r = Inr row \<and> length cols \<le> length row)
                 [1..row_count t - 1]"
      unfolding list_all_iff by blast
    from build_rows_ok[OF this, of "[]"] obtain rs where
      "build_rows grid cols [1..row_count t - 1] [] = Inr rs"
      by blast
    with Inr cols False show ?thesis
      by (simp add: structure_table_def)
  qed
qed

lemma extract_tables_fails_iff:
  "isl (extract_tables ts md) \<longleftrightarrow> list_ex (\<lambda>t. isl (build_grid t)) ts"
  by (induction ts arbitrary: md) (auto split: sum.splits)

text \<open>
  A processed document with a table that has a cell outside its grid ends the run with the
  exception, whatever came before and whatever follows.
\<close>

lemma overflow_table_aborts:
  assumes "run_azure_layout client (file_path p) = Some result"
    and "list_ex (\<lambda>t. isl (build_grid t)) (tables_or_empty result)"
  shows "isl (process_loop client rep (p # ps))"
proof -
  from assms(2) have "isl (extract_metadata result (r_metadata rep))"
    by (simp add: extract_metadata_def extract_tables_fails_iff)
  with assms(1) show ?thesis
    by (auto simp: Let_def isl_def split: sum.splits)
qed


end
